theory Spec2Isabelle
  imports Complex_Main "HOL-Library.Char_ord" "HOL-Library.List_Lexorder"
begin

section \<open>JavaScript values used by the sorter\<close>

text \<open>
  A JavaScript number is modelled as an exact real or \<open>NaN\<close>. Rounding to double
  precision, overflow to an infinity and the sign of zero are outside this model: every
  arithmetic result is the exact one. The operators below are the ones the sorter applies;
  each yields \<open>NaN\<close> as soon as an operand is \<open>NaN\<close>, and a comparison with \<open>NaN\<close> is
  false.
\<close>

datatype jsnum = NaN | Num real

fun jadd :: "jsnum \<Rightarrow> jsnum \<Rightarrow> jsnum" where
  "jadd (Num a) (Num b) = Num (a + b)"
| "jadd _ _ = NaN"

fun jsub :: "jsnum \<Rightarrow> jsnum \<Rightarrow> jsnum" where
  "jsub (Num a) (Num b) = Num (a - b)"
| "jsub _ _ = NaN"

fun jmul :: "jsnum \<Rightarrow> jsnum \<Rightarrow> jsnum" where
  "jmul (Num a) (Num b) = Num (a * b)"
| "jmul _ _ = NaN"

text \<open>
  The only division of the sorter is guarded by a positive divisor; a zero divisor (an
  infinity or \<open>NaN\<close> in JavaScript) is mapped to \<open>NaN\<close> and never reached.
\<close>

fun jdiv :: "jsnum \<Rightarrow> jsnum \<Rightarrow> jsnum" where
  "jdiv (Num a) (Num b) = (if b = 0 then NaN else Num (a / b))"
| "jdiv _ _ = NaN"

fun jmax :: "jsnum \<Rightarrow> jsnum \<Rightarrow> jsnum" where
  "jmax (Num a) (Num b) = Num (max a b)"
| "jmax _ _ = NaN"

text \<open>
  \<open>Math.log10\<close> is only applied under the guard \<open>capacity > 0\<close>; outside it (minus
  infinity at zero, \<open>NaN\<close> below) the model answers \<open>NaN\<close>.
\<close>

fun jlog10 :: "jsnum \<Rightarrow> jsnum" where
  "jlog10 (Num a) = (if 0 < a then Num (log 10 a) else NaN)"
| "jlog10 NaN = NaN"

fun jlt :: "jsnum \<Rightarrow> jsnum \<Rightarrow> bool" where
  "jlt (Num a) (Num b) = (a < b)"
| "jlt _ _ = False"

fun jgt :: "jsnum \<Rightarrow> jsnum \<Rightarrow> bool" where
  "jgt (Num a) (Num b) = (b < a)"
| "jgt _ _ = False"

fun jge :: "jsnum \<Rightarrow> jsnum \<Rightarrow> bool" where
  "jge (Num a) (Num b) = (b \<le> a)"
| "jge _ _ = False"

fun jle :: "jsnum \<Rightarrow> jsnum \<Rightarrow> bool" where
  "jle (Num a) (Num b) = (a \<le> b)"
| "jle _ _ = False"

text \<open>Truthiness of a number: zero and \<open>NaN\<close> are falsy.\<close>

fun truthy :: "jsnum \<Rightarrow> bool" where
  "truthy (Num a) = (a \<noteq> 0)"
| "truthy NaN = False"

text \<open>
  \<open>parseFloat\<close> can also answer an infinity (from the literal \<open>Infinity\<close>); its results
  get a type of their own. The flag of \<open>Infinity\<close> is true for the negative one.
\<close>

datatype jsfloat = Finite jsnum | Infinity bool

fun flt :: "jsfloat \<Rightarrow> jsfloat \<Rightarrow> bool" where
  "flt (Finite x) (Finite y) = jlt x y"
| "flt (Finite NaN) (Infinity _) = False"
| "flt (Infinity _) (Finite NaN) = False"
| "flt (Finite (Num _)) (Infinity neg) = (\<not> neg)"
| "flt (Infinity neg) (Finite (Num _)) = neg"
| "flt (Infinity n1) (Infinity n2) = (n1 \<and> \<not> n2)"

subsection \<open>Strings\<close>

text \<open>
  Strings are byte lists; \<open><\<close> on them is the lexicographic order by character code, as
  JavaScript's relational operators on two strings (by code unit). Case mapping and white
  space are modelled on ASCII.
\<close>

definition toLowerCase_char :: "char \<Rightarrow> char" where
  "toLowerCase_char c =
     (let n = (of_char c :: nat) in if 65 \<le> n \<and> n \<le> 90 then char_of (n + 32) else c)"

definition toLowerCase :: "string \<Rightarrow> string" where
  "toLowerCase s = map toLowerCase_char s"

definition isWhiteSpace :: "char \<Rightarrow> bool" where
  "isWhiteSpace c = (let n = (of_char c :: nat) in (9 \<le> n \<and> n \<le> 13) \<or> n = 32)"

definition isDigit :: "char \<Rightarrow> bool" where
  "isDigit c = (let n = (of_char c :: nat) in 48 \<le> n \<and> n \<le> 57)"

definition digitsVal :: "string \<Rightarrow> nat" where
  "digitsVal ds = foldl (\<lambda>acc c. 10 * acc + ((of_char c :: nat) - 48)) 0 ds"

text \<open>An optional sign in front of a numeral: the factor and the rest.\<close>

definition takeSign :: "string \<Rightarrow> real \<times> string" where
  "takeSign t =
     (case t of
        [] \<Rightarrow> (1, t)
      | c # r \<Rightarrow> if c = CHR ''-'' then (-1, r) else if c = CHR ''+'' then (1, r) else (1, t))"

text \<open>
  \<open>parseInt(s, 10)\<close>: leading white space is skipped, a sign is read, then the longest
  run of decimal digits; with no digit the result is \<open>NaN\<close>, and anything after the
  digits is ignored. The value here is the exact integer. The code's is the nearest double,
  the same up to \<open>2^53\<close>, and an infinity for a numeral beyond the range of the doubles
  (more than 308 digits), which this model does not have: what is proved of parsed
  attributes is proved for attributes of at most 308 characters.
\<close>

definition parseInt :: "string \<Rightarrow> jsnum" where
  "parseInt s =
     (let (sign, u) = takeSign (dropWhile isWhiteSpace s);
          ds = takeWhile isDigit u
      in if ds = [] then NaN else Num (sign * real (digitsVal ds)))"

text \<open>
  \<open>parseFloat(s)\<close>: the longest prefix that is a decimal literal (digits, an optional
  fraction, an optional exponent) or \<open>Infinity\<close>, after white space and a sign. The value
  is exact as well; a literal beyond the range of the doubles (an infinity in the code) is
  outside the model.
\<close>

definition exponentPart :: "string \<Rightarrow> int" where
  "exponentPart r =
     (case r of
        [] \<Rightarrow> 0
      | c # r' \<Rightarrow>
          if c = CHR ''e'' \<or> c = CHR ''E'' then
            (let (esign, r'') = takeSign r'; eds = takeWhile isDigit r''
             in if eds = [] then 0
                else if esign < 0 then - int (digitsVal eds) else int (digitsVal eds))
          else 0)"

definition scale10 :: "real \<Rightarrow> int \<Rightarrow> real" where
  "scale10 x e = (if 0 \<le> e then x * 10 ^ nat e else x / 10 ^ nat (- e))"

definition parseFloat :: "string \<Rightarrow> jsfloat" where
  "parseFloat s =
     (let (sign, u) = takeSign (dropWhile isWhiteSpace s) in
      if take 8 u = ''Infinity'' then Infinity (sign < 0)
      else
        (let ip = takeWhile isDigit u;
             r1 = dropWhile isDigit u;
             (fp, r2) = (case r1 of
                           [] \<Rightarrow> ([], r1)
                         | c # r \<Rightarrow> if c = CHR ''.''
                                    then (takeWhile isDigit r, dropWhile isDigit r)
                                    else ([], r1))
         in if ip = [] \<and> fp = [] then Finite NaN
            else Finite (Num (sign * scale10
                   (real (digitsVal ip) + real (digitsVal fp) / 10 ^ length fp)
                   (exponentPart r2)))))"

text \<open>\<open>x || d\<close> on an attribute that may be missing: \<open>undefined\<close> and the empty string are falsy.\<close>

definition orDefault :: "string option \<Rightarrow> string \<Rightarrow> string" where
  "orDefault x d = (case x of None \<Rightarrow> d | Some s \<Rightarrow> if s = [] then d else s)"

section \<open>The sorter: rows, weights and state\<close>

text \<open>The \<open>data-*\<close> attributes of a table row; an attribute that is not set is \<open>None\<close>.\<close>

record row =
  data_url :: "string option"
  data_name :: "string option"
  data_up :: "string option"
  data_uptime :: "string option"
  data_capacity :: "string option"
  data_channels :: "string option"
  data_currencies :: "string option"
  data_latency :: "string option"
  data_mints :: "string option"
  data_melts :: "string option"
  data_errors :: "string option"

record rowData =
  element :: row
  url :: "string option"
  ln_name :: string
  sortName :: string
  isUp :: jsnum
  uptime :: jsfloat
  capacity :: jsnum
  channels :: jsnum
  currencies :: jsnum
  latency :: jsnum
  mints :: jsnum
  melts :: jsnum
  errors :: jsnum

definition getRowData :: "row \<Rightarrow> rowData" where
  "getRowData r =
     \<lparr> element = r,
       url = data_url r,
       ln_name = toLowerCase (orDefault (data_name r) ''''),
       sortName = toLowerCase (orDefault (data_name r) (orDefault (data_url r) '''')),
       isUp = parseInt (orDefault (data_up r) ''0''),
       uptime = parseFloat (orDefault (data_uptime r) ''0''),
       capacity = parseInt (orDefault (data_capacity r) ''0''),
       channels = parseInt (orDefault (data_channels r) ''0''),
       currencies = parseInt (orDefault (data_currencies r) ''0''),
       latency = parseInt (orDefault (data_latency r) ''99999''),
       mints = parseInt (orDefault (data_mints r) ''0''),
       melts = parseInt (orDefault (data_melts r) ''0''),
       errors = parseInt (orDefault (data_errors r) ''0'') \<rparr>"

record weights =
  w_status :: bool
  w_currency :: jsnum
  w_capacity :: jsnum
  w_channels :: jsnum
  w_latency :: jsnum
  w_mints :: jsnum
  w_melts :: jsnum
  w_errors :: jsnum

definition DEFAULTS :: weights where
  "DEFAULTS =
     \<lparr> w_status = True, w_currency = Num 50, w_capacity = Num 5000, w_channels = Num 20,
       w_latency = Num 5, w_mints = Num 50, w_melts = Num 50, w_errors = Num 200 \<rparr>"

datatype sortMode = Weighted | Column

datatype sortDirection = Asc | Desc

record sortState =
  mode :: sortMode
  columnKey :: "string option"
  direction :: sortDirection
  weights :: weights

definition initialState :: sortState where
  "initialState = \<lparr> mode = Weighted, columnKey = None, direction = Desc, weights = DEFAULTS \<rparr>"

subsection \<open>calculateScore\<close>

definition calculateScore :: "sortState \<Rightarrow> rowData \<Rightarrow> jsnum" where
  "calculateScore st d =
     (let w = weights st;
          score = Num 0;
          score = (if w_status w
                   then jadd score (if truthy (isUp d) then Num 1000000000 else Num 0)
                   else score);
          activityScore = jadd (jmul (mints d) (w_mints w)) (jmul (melts d) (w_melts w));
          score = (if jgt activityScore (Num 0) then
                     (let totalOps = jadd (jadd (mints d) (melts d)) (errors d);
                          errorRate = (if jgt totalOps (Num 0)
                                       then jdiv (errors d) totalOps else Num 0);
                          penaltyFactor = jmul errorRate (jdiv (w_errors w) (Num 100));
                          modulation = jmax (Num 0) (jsub (Num 1) penaltyFactor)
                      in jadd score (jmul activityScore modulation))
                   else score);
          score = (if jgt (capacity d) (Num 0)
                   then jadd score (jmul (jlog10 (capacity d)) (w_capacity w))
                   else score);
          score = (if jgt (channels d) (Num 0)
                   then jadd score (jmul (channels d) (w_channels w))
                   else score);
          score = (if jge (latency d) (Num 99999)
                   then jsub score (jmul (Num 1000) (w_latency w))
                   else jsub score (jmul (latency d) (w_latency w)));
          score = jadd score (jmul (currencies d) (w_currency w))
      in score)"

text \<open>
  The amount the second block of \<open>calculateScore\<close> (activity, modulated by errors) adds
  to the score: nothing unless the activity is positive.
\<close>

definition activityTerm :: "weights \<Rightarrow> rowData \<Rightarrow> jsnum" where
  "activityTerm w d =
     (let activityScore = jadd (jmul (mints d) (w_mints w)) (jmul (melts d) (w_melts w))
      in if jgt activityScore (Num 0) then
           (let totalOps = jadd (jadd (mints d) (melts d)) (errors d);
                errorRate = (if jgt totalOps (Num 0)
                             then jdiv (errors d) totalOps else Num 0);
                penaltyFactor = jmul errorRate (jdiv (w_errors w) (Num 100));
                modulation = jmax (Num 0) (jsub (Num 1) penaltyFactor)
            in jmul activityScore modulation)
         else Num 0)"

subsection \<open>The comparison of applySort\<close>

text \<open>
  \<open>a[state.columnKey] < b[state.columnKey]\<close>, by the type of the field the key names.
  Two strings compare lexicographically; \<open>undefined\<close> converts to \<open>NaN\<close>, so every
  comparison with it is false. The row element and any key that names no field give
  the same answer on both sides: neither is less.
\<close>

definition strLess :: "string option \<Rightarrow> string option \<Rightarrow> bool" where
  "strLess x y = (case (x, y) of (Some s, Some t) \<Rightarrow> s < t | _ \<Rightarrow> False)"

definition columnLess :: "string option \<Rightarrow> rowData \<Rightarrow> rowData \<Rightarrow> bool" where
  "columnLess key a b =
     (if key = Some ''url'' then strLess (url a) (url b)
      else if key = Some ''ln_name'' then ln_name a < ln_name b
      else if key = Some ''sortName'' then sortName a < sortName b
      else if key = Some ''isUp'' then jlt (isUp a) (isUp b)
      else if key = Some ''uptime'' then flt (uptime a) (uptime b)
      else if key = Some ''capacity'' then jlt (capacity a) (capacity b)
      else if key = Some ''channels'' then jlt (channels a) (channels b)
      else if key = Some ''currencies'' then jlt (currencies a) (currencies b)
      else if key = Some ''latency'' then jlt (latency a) (latency b)
      else if key = Some ''mints'' then jlt (mints a) (mints b)
      else if key = Some ''melts'' then jlt (melts a) (melts b)
      else if key = Some ''errors'' then jlt (errors a) (errors b)
      else False)"

text \<open>The primary comparison: the value of \<open>res\<close> before the tie-breaker.\<close>

definition primaryCompare :: "sortState \<Rightarrow> rowData \<Rightarrow> rowData \<Rightarrow> jsnum" where
  "primaryCompare st a b =
     (if mode st = Weighted then jsub (calculateScore st b) (calculateScore st a)
      else if columnLess (columnKey st) a b
           then (if direction st = Asc then Num (-1) else Num 1)
      else if columnLess (columnKey st) b a
           then (if direction st = Asc then Num 1 else Num (-1))
      else Num 0)"

text \<open>The callback given to \<open>rowData.sort\<close>: negative puts \<open>a\<close> first, positive \<open>b\<close>.\<close>

definition sortCompare :: "sortState \<Rightarrow> rowData \<Rightarrow> rowData \<Rightarrow> jsnum" where
  "sortCompare st a b =
     (let res = primaryCompare st a b
      in if res = Num 0 then
           (if sortName a < sortName b then Num (-1)
            else if sortName b < sortName a then Num 1
            else res)
         else res)"

subsection \<open>Event handlers\<close>

datatype weightKey = Currency | Capacity | Channels | Latency | Mints | Melts | Errors

definition setWeight :: "weightKey \<Rightarrow> jsnum \<Rightarrow> weights \<Rightarrow> weights" where
  "setWeight key val w =
     (case key of
        Currency \<Rightarrow> w\<lparr>w_currency := val\<rparr>
      | Capacity \<Rightarrow> w\<lparr>w_capacity := val\<rparr>
      | Channels \<Rightarrow> w\<lparr>w_channels := val\<rparr>
      | Latency \<Rightarrow> w\<lparr>w_latency := val\<rparr>
      | Mints \<Rightarrow> w\<lparr>w_mints := val\<rparr>
      | Melts \<Rightarrow> w\<lparr>w_melts := val\<rparr>
      | Errors \<Rightarrow> w\<lparr>w_errors := val\<rparr>)"

definition onStatusChange :: "bool \<Rightarrow> sortState \<Rightarrow> sortState" where
  "onStatusChange checked st = st\<lparr>weights := (weights st)\<lparr>w_status := checked\<rparr>, mode := Weighted\<rparr>"

definition onWeightInput :: "weightKey \<Rightarrow> string \<Rightarrow> sortState \<Rightarrow> sortState" where
  "onWeightInput key v st =
     (let val = parseInt v in st\<lparr>weights := setWeight key val (weights st), mode := Weighted\<rparr>)"

text \<open>The click on the reset button assigns the mode and the weights, nothing else.\<close>

definition onReset :: "sortState \<Rightarrow> sortState" where
  "onReset st = st\<lparr>mode := Weighted, weights := DEFAULTS\<rparr>"

text \<open>
  The key of a header is its \<open>data-key\<close> attribute, \<open>None\<close> when the header has none. In
  the state \<open>None\<close> also stands for the initial \<open>null\<close>, which no state in column mode
  holds.
\<close>

definition handleHeaderClick :: "string option \<Rightarrow> sortState \<Rightarrow> sortState" where
  "handleHeaderClick key st =
     (if mode st = Column \<and> columnKey st = key
      then st\<lparr>direction := (if direction st = Desc then Asc else Desc)\<rparr>
      else st\<lparr>mode := Column, columnKey := key,
              direction := (if key = Some ''latency'' \<or> key = Some ''url'' \<or> key = Some ''errors''
                            then Asc else Desc)\<rparr>)"

datatype sortEvent =
    StatusChange bool
  | WeightInput weightKey string
  | Reset
  | HeaderClick "string option"

fun handleEvent :: "sortState \<Rightarrow> sortEvent \<Rightarrow> sortState" where
  "handleEvent st (StatusChange c) = onStatusChange c st"
| "handleEvent st (WeightInput k v) = onWeightInput k v st"
| "handleEvent st Reset = onReset st"
| "handleEvent st (HeaderClick k) = handleHeaderClick k st"

text \<open>The states the page can reach: the initial one, after any sequence of events.\<close>

definition stateAfter :: "sortEvent list \<Rightarrow> sortState" where
  "stateAfter es = foldl handleEvent initialState es"

subsection \<open>The blocks of calculateScore and the declared domain\<close>

text \<open>
  What each numbered block of \<open>calculateScore\<close> adds to (for the latency: takes from)
  the score; \<open>activityTerm\<close> above is the second one.
\<close>

definition statusTerm :: "weights \<Rightarrow> rowData \<Rightarrow> jsnum" where
  "statusTerm w d =
     (if w_status w then (if truthy (isUp d) then Num 1000000000 else Num 0) else Num 0)"

definition capacityTerm :: "weights \<Rightarrow> rowData \<Rightarrow> jsnum" where
  "capacityTerm w d =
     (if jgt (capacity d) (Num 0) then jmul (jlog10 (capacity d)) (w_capacity w) else Num 0)"

definition channelsTerm :: "weights \<Rightarrow> rowData \<Rightarrow> jsnum" where
  "channelsTerm w d =
     (if jgt (channels d) (Num 0) then jmul (channels d) (w_channels w) else Num 0)"

definition latencyPenalty :: "weights \<Rightarrow> rowData \<Rightarrow> jsnum" where
  "latencyPenalty w d =
     (if jge (latency d) (Num 99999) then jmul (Num 1000) (w_latency w)
      else jmul (latency d) (w_latency w))"

definition currencyTerm :: "weights \<Rightarrow> rowData \<Rightarrow> jsnum" where
  "currencyTerm w d = jmul (currencies d) (w_currency w)"

text \<open>The factor by which the errors scale the activity down, on plain reals.\<close>

definition modulationOf :: "real \<Rightarrow> real \<Rightarrow> real \<Rightarrow> real \<Rightarrow> real" where
  "modulationOf m me e we =
     max 0 (1 - (if 0 < m + me + e then e / (m + me + e) else 0) * (we / 100))"

text \<open>
  The domain the data model declares: every numeric field of a record is an integer
  \<open>\<ge> 0\<close> (never \<open>NaN\<close>), every numeric weight a number \<open>\<ge> 0\<close>.
\<close>

fun isCount :: "jsnum \<Rightarrow> bool" where
  "isCount (Num r) = (0 \<le> r \<and> r = of_int \<lfloor>r\<rfloor>)"
| "isCount NaN = False"

fun isWeight :: "jsnum \<Rightarrow> bool" where
  "isWeight (Num r) = (0 \<le> r)"
| "isWeight NaN = False"

definition normalizedRecord :: "rowData \<Rightarrow> bool" where
  "normalizedRecord d =
     (isCount (isUp d) \<and> isCount (capacity d) \<and> isCount (channels d) \<and>
      isCount (currencies d) \<and> isCount (latency d) \<and> isCount (mints d) \<and>
      isCount (melts d) \<and> isCount (errors d))"

definition normalizedWeights :: "weights \<Rightarrow> bool" where
  "normalizedWeights w =
     (isWeight (w_currency w) \<and> isWeight (w_capacity w) \<and> isWeight (w_channels w) \<and>
      isWeight (w_latency w) \<and> isWeight (w_mints w) \<and> isWeight (w_melts w) \<and>
      isWeight (w_errors w))"

text \<open>
  "Weights bounded well below 1e9 over the field magnitudes", made precise: what each of
  the six weighted criteria can contribute (the gross activity of mints and of melts, the
  logarithmic capacity term, the channels, the currencies, the latency penalty) stays
  below a sixth of the status bias.
\<close>

definition wellBelow :: "weights \<Rightarrow> rowData \<Rightarrow> bool" where
  "wellBelow w d =
     (let bound = Num (1000000000 / 6) in
      jlt (jmul (mints d) (w_mints w)) bound \<and>
      jlt (jmul (melts d) (w_melts w)) bound \<and>
      jlt (capacityTerm w d) bound \<and>
      jlt (jmul (channels d) (w_channels w)) bound \<and>
      jlt (jmul (currencies d) (w_currency w)) bound \<and>
      jlt (latencyPenalty w d) bound)"

text \<open>A row with no \<open>data-*\<close> attribute set, to build examples from.\<close>

definition emptyRow :: row where
  "emptyRow =
     \<lparr> data_url = None, data_name = None, data_up = None, data_uptime = None,
       data_capacity = None, data_channels = None, data_currencies = None,
       data_latency = None, data_mints = None, data_melts = None, data_errors = None \<rparr>"

text \<open>The gross activity, before the errors scale it.\<close>

definition activityScore :: "weights \<Rightarrow> rowData \<Rightarrow> jsnum" where
  "activityScore w d = jadd (jmul (mints d) (w_mints w)) (jmul (melts d) (w_melts w))"

text \<open>
  Where the latency penalty is monotone: between two known latencies, from a latency of
  at most 1000 to anything larger, and between two unknown ones.
\<close>

definition latencyOrdered :: "jsnum \<Rightarrow> jsnum \<Rightarrow> bool" where
  "latencyOrdered l1 l2 =
     (jle l1 l2 \<and> (jlt l2 (Num 99999) \<or> jle l1 (Num 1000) \<or> jge l1 (Num 99999)))"

text \<open>An attribute that is absent or empty: what \<open>||\<close> replaces by the default.\<close>

definition unset :: "string option \<Rightarrow> bool" where
  "unset a = (a = None \<or> a = Some [])"

text \<open>
  Attributes as \<open>parseInt\<close> reads them. An attribute starts with a numeral when, after
  white space and an optional sign, a decimal digit follows. An attribute of at most 308
  characters stays within the range of the doubles, where the code's \<open>parseInt\<close> answers
  a finite integer too.
\<close>

fun isInteger :: "jsnum \<Rightarrow> bool" where
  "isInteger (Num r) = (r = of_int \<lfloor>r\<rfloor>)"
| "isInteger NaN = False"

definition startsWithNumeral :: "string \<Rightarrow> bool" where
  "startsWithNumeral s =
     (case dropWhile isWhiteSpace s of
        [] \<Rightarrow> False
      | c # r \<Rightarrow>
          if c = CHR ''-'' \<or> c = CHR ''+''
          then (case r of [] \<Rightarrow> False | c' # r' \<Rightarrow> isDigit c')
          else isDigit c)"

definition startsWithMinus :: "string \<Rightarrow> bool" where
  "startsWithMinus s =
     (case dropWhile isWhiteSpace s of [] \<Rightarrow> False | c # r \<Rightarrow> c = CHR ''-'')"

definition numeralAttr :: "string option \<Rightarrow> bool" where
  "numeralAttr a =
     (case a of
        None \<Rightarrow> True
      | Some s \<Rightarrow> s = [] \<or> (startsWithNumeral s \<and> length s \<le> 308))"

definition countAttr :: "string option \<Rightarrow> bool" where
  "countAttr a =
     (case a of
        None \<Rightarrow> True
      | Some s \<Rightarrow> s = [] \<or> (startsWithNumeral s \<and> \<not> startsWithMinus s \<and> length s \<le> 308))"

definition numeralAttributes :: "row \<Rightarrow> bool" where
  "numeralAttributes r =
     (numeralAttr (data_up r) \<and> numeralAttr (data_capacity r) \<and>
      numeralAttr (data_channels r) \<and> numeralAttr (data_currencies r) \<and>
      numeralAttr (data_latency r) \<and> numeralAttr (data_mints r) \<and>
      numeralAttr (data_melts r) \<and> numeralAttr (data_errors r))"

definition countAttributes :: "row \<Rightarrow> bool" where
  "countAttributes r =
     (countAttr (data_up r) \<and> countAttr (data_capacity r) \<and>
      countAttr (data_channels r) \<and> countAttr (data_currencies r) \<and>
      countAttr (data_latency r) \<and> countAttr (data_mints r) \<and>
      countAttr (data_melts r) \<and> countAttr (data_errors r))"

text \<open>Every field that \<open>calculateScore\<close> reads is an integer (in particular not \<open>NaN\<close>).\<close>

definition integerRecord :: "rowData \<Rightarrow> bool" where
  "integerRecord d =
     (isInteger (isUp d) \<and> isInteger (capacity d) \<and> isInteger (channels d) \<and>
      isInteger (currencies d) \<and> isInteger (latency d) \<and> isInteger (mints d) \<and>
      isInteger (melts d) \<and> isInteger (errors d))"

subsection \<open>The order of the sort comparison\<close>







section \<open>The latency monitor: probes with a cache and an in-flight registry\<close>

text \<open>
  The monitor runs on one thread: a call of \<open>measureLatency\<close> or \<open>fetchSupportedUnits\<close>
  runs without interruption up to its first \<open>await\<close> (the network call), and the rest
  of the probe runs, again without interruption, when the network answers. The model has
  one step for each: the call, and the answer. A promise is a number; the probes that
  wait for the network are the tasks in flight; the value a promise resolved with is
  kept in \<open>settled\<close>. The clock \<open>Date.now()\<close> is part of the state and only moves forward.
\<close>

type_synonym url = string

type_synonym promiseId = nat

datatype json =
    JNull
  | JBool bool
  | JNumber real
  | JString string
  | JArray "json list"
  | JObject "(string \<times> json) list"

text \<open>
  What the network answers to a \<open>fetch\<close>: a rejection (a network error, or the abort
  by the 5 second timeout), or a response with its \<open>ok\<close> flag and its body as
  \<open>response.json()\<close> reads it (\<open>None\<close> when the body is not JSON and \<open>json()\<close> rejects).
\<close>

datatype response = NetworkError | Aborted | Http bool "json option"

datatype probeKind = LatencyProbe | CapabilityProbe

datatype result = LatencyResult "int option" | UnitsResult "string list option"

text \<open>A cache entry \<open>{ latency, timestamp }\<close> or \<open>{ units, timestamp }\<close>.\<close>

record 'v cacheEntry =
  cachedValue :: 'v
  timestamp :: int

record task =
  taskPromise :: promiseId
  taskKind :: probeKind
  taskUrl :: url
  taskRequest :: string

record monitor =
  latencyCache :: "url \<rightharpoonup> int option cacheEntry"
  pendingRequests :: "url \<rightharpoonup> promiseId"
  currencyCache :: "url \<rightharpoonup> string list option cacheEntry"
  pendingCurrencyRequests :: "url \<rightharpoonup> promiseId"
  now :: int
  nextPromise :: promiseId
  inflight :: "task list"
  settled :: "promiseId \<rightharpoonup> result"
  fetches :: "string list"

definition CACHE_DURATION_MS :: int where
  "CACHE_DURATION_MS = 10000"

definition initialMonitor :: monitor where
  "initialMonitor =
     \<lparr> latencyCache = Map.empty, pendingRequests = Map.empty, currencyCache = Map.empty,
       pendingCurrencyRequests = Map.empty, now = 0, nextPromise = 0, inflight = [],
       settled = Map.empty, fetches = [] \<rparr>"

text \<open>What a caller gets: a value at once (a cache hit), or a promise to wait for.\<close>

datatype 'v outcome = Immediate 'v | Pending promiseId

text \<open>\<open>mintUrl.replace(/\/$/, '')\<close>: one trailing slash is dropped.\<close>

definition stripTrailingSlash :: "string \<Rightarrow> string" where
  "stripTrailingSlash s = (if s \<noteq> [] \<and> last s = CHR ''/'' then butlast s else s)"

text \<open>\<open>cached && Date.now() - cached.timestamp < CACHE_DURATION_MS\<close>.\<close>

definition isFresh :: "'v cacheEntry option \<Rightarrow> int \<Rightarrow> bool" where
  "isFresh cached t =
     (case cached of None \<Rightarrow> False | Some c \<Rightarrow> t - timestamp c < CACHE_DURATION_MS)"

subsection \<open>measureLatency\<close>

text \<open>
  The part of \<open>measureLatency\<close> after the cache check: an existing pending promise is
  returned; otherwise the probe starts, its \<open>fetch\<close> is issued and its promise is put
  into \<open>pendingRequests\<close>.
\<close>

definition measureLatencyUncached :: "url \<Rightarrow> monitor \<Rightarrow> int option outcome \<times> monitor" where
  "measureLatencyUncached mintUrl s =
     (case pendingRequests s mintUrl of
        Some p \<Rightarrow> (Pending p, s)
      | None \<Rightarrow>
          (let p = nextPromise s;
               request = stripTrailingSlash mintUrl @ ''/v1/info'';
               t = \<lparr> taskPromise = p, taskKind = LatencyProbe, taskUrl = mintUrl,
                     taskRequest = request \<rparr>
           in (Pending p,
               s\<lparr> nextPromise := p + 1,
                  inflight := inflight s @ [t],
                  fetches := fetches s @ [request],
                  pendingRequests := (pendingRequests s)(mintUrl \<mapsto> p) \<rparr>)))"

definition measureLatency :: "url \<Rightarrow> monitor \<Rightarrow> int option outcome \<times> monitor" where
  "measureLatency mintUrl s =
     (case latencyCache s mintUrl of
        None \<Rightarrow> measureLatencyUncached mintUrl s
      | Some cached \<Rightarrow>
          if now s - timestamp cached < CACHE_DURATION_MS
          then (Immediate (cachedValue cached), s)
          else measureLatencyUncached mintUrl s)"

text \<open>\<open>Math.round\<close> of the time between the two readings of \<open>performance.now()\<close>.\<close>

definition mathRound :: "real \<Rightarrow> int" where
  "mathRound x = \<lfloor>x + 1 / 2\<rfloor>"

text \<open>
  The rest of the latency probe, run when the network answers: only a response with
  \<open>ok\<close> stores a cache entry; \<open>finally\<close> removes the pending promise; the promise
  resolves.
\<close>

definition settleLatency :: "task \<Rightarrow> response \<Rightarrow> real \<Rightarrow> monitor \<Rightarrow> monitor" where
  "settleLatency t resp elapsed s =
     (let latency = mathRound elapsed;
          mintUrl = taskUrl t;
          (res, s1) =
            (case resp of
               Http ok body \<Rightarrow>
                 if ok
                 then (Some latency,
                       s\<lparr>latencyCache := (latencyCache s)(mintUrl \<mapsto>
                            \<lparr>cachedValue = Some latency, timestamp = now s\<rparr>)\<rparr>)
                 else (None, s)
             | _ \<Rightarrow> (None, s))
      in s1\<lparr> pendingRequests := (pendingRequests s1)(mintUrl := None),
             inflight := filter (\<lambda>t'. taskPromise t' \<noteq> taskPromise t) (inflight s1),
             settled := (settled s1)(taskPromise t \<mapsto> LatencyResult res) \<rparr>)"

subsection \<open>fetchSupportedUnits\<close>

definition fetchSupportedUnitsUncached ::
    "url \<Rightarrow> monitor \<Rightarrow> string list option outcome \<times> monitor" where
  "fetchSupportedUnitsUncached mintUrl s =
     (case pendingCurrencyRequests s mintUrl of
        Some p \<Rightarrow> (Pending p, s)
      | None \<Rightarrow>
          (let p = nextPromise s;
               request = stripTrailingSlash mintUrl @ ''/v1/keysets'';
               t = \<lparr> taskPromise = p, taskKind = CapabilityProbe, taskUrl = mintUrl,
                     taskRequest = request \<rparr>
           in (Pending p,
               s\<lparr> nextPromise := p + 1,
                  inflight := inflight s @ [t],
                  fetches := fetches s @ [request],
                  pendingCurrencyRequests := (pendingCurrencyRequests s)(mintUrl \<mapsto> p) \<rparr>)))"

definition fetchSupportedUnits ::
    "url \<Rightarrow> monitor \<Rightarrow> string list option outcome \<times> monitor" where
  "fetchSupportedUnits mintUrl s =
     (case currencyCache s mintUrl of
        None \<Rightarrow> fetchSupportedUnitsUncached mintUrl s
      | Some cached \<Rightarrow>
          if now s - timestamp cached < CACHE_DURATION_MS
          then (Immediate (cachedValue cached), s)
          else fetchSupportedUnitsUncached mintUrl s)"

text \<open>
  \<open>Array.isArray(data?.keysets) ? data.keysets : []\<close>. A parsed object holds each key
  once; only an object has a \<open>keysets\<close> property.
\<close>

definition keysetsOf :: "json \<Rightarrow> json list" where
  "keysetsOf data =
     (case data of
        JObject kv \<Rightarrow> (case map_of kv ''keysets'' of Some (JArray ks) \<Rightarrow> ks | _ \<Rightarrow> [])
      | _ \<Rightarrow> [])"

text \<open>
  The filter and the map over the key sets:
  \<open>ks && ks.active === true && typeof ks.unit === 'string'\<close>, then \<open>ks.unit\<close>.
\<close>

definition activeUnit :: "json \<Rightarrow> string option" where
  "activeUnit ks =
     (case ks of
        JObject kv \<Rightarrow>
          (case map_of kv ''active'' of
             Some (JBool True) \<Rightarrow>
               (case map_of kv ''unit'' of Some (JString u) \<Rightarrow> Some u | _ \<Rightarrow> None)
           | _ \<Rightarrow> None)
      | _ \<Rightarrow> None)"

text \<open>\<open>[...new Set(xs)]\<close>: each value once, in the order of its first occurrence.\<close>

fun setInsertAll :: "'a list \<Rightarrow> 'a list \<Rightarrow> 'a list" where
  "setInsertAll acc [] = acc"
| "setInsertAll acc (x # xs) = setInsertAll (if x \<in> set acc then acc else acc @ [x]) xs"

definition unitsOf :: "json \<Rightarrow> string list" where
  "unitsOf data = setInsertAll [] (List.map_filter activeUnit (keysetsOf data))"

text \<open>
  The rest of the capability probe. The two awaits (the response, then its body) are one
  step: nothing of the monitor changes between them.
\<close>

definition settleUnits :: "task \<Rightarrow> response \<Rightarrow> monitor \<Rightarrow> monitor" where
  "settleUnits t resp s =
     (let mintUrl = taskUrl t;
          (res, s1) =
            (case resp of
               Http ok body \<Rightarrow>
                 if \<not> ok then (None, s)
                 else (case body of
                         None \<Rightarrow> (None, s)
                       | Some data \<Rightarrow>
                           (let units = unitsOf data
                            in (Some units,
                                s\<lparr>currencyCache := (currencyCache s)(mintUrl \<mapsto>
                                     \<lparr>cachedValue = Some units, timestamp = now s\<rparr>)\<rparr>)))
             | _ \<Rightarrow> (None, s))
      in s1\<lparr> pendingCurrencyRequests := (pendingCurrencyRequests s1)(mintUrl := None),
             inflight := filter (\<lambda>t'. taskPromise t' \<noteq> taskPromise t) (inflight s1),
             settled := (settled s1)(taskPromise t \<mapsto> UnitsResult res) \<rparr>)"

subsection \<open>Events\<close>

text \<open>
  The network answers the fetch of a promise in flight (an answer for anything else does
  not exist); for a latency probe the answer comes with the time measured.
\<close>

definition respond :: "promiseId \<Rightarrow> response \<Rightarrow> real \<Rightarrow> monitor \<Rightarrow> monitor" where
  "respond p resp elapsed s =
     (case find (\<lambda>t. taskPromise t = p) (inflight s) of
        None \<Rightarrow> s
      | Some t \<Rightarrow>
          (case taskKind t of
             LatencyProbe \<Rightarrow> settleLatency t resp elapsed s
           | CapabilityProbe \<Rightarrow> settleUnits t resp s))"

text \<open>The periodic refresh: \<open>latencyCache.clear(); currencyCache.clear()\<close>.\<close>

definition clearCaches :: "monitor \<Rightarrow> monitor" where
  "clearCaches s = s\<lparr>latencyCache := Map.empty, currencyCache := Map.empty\<rparr>"

datatype event =
    CallMeasureLatency url
  | CallFetchSupportedUnits url
  | Respond promiseId response real
  | Tick nat
  | ClearCaches

fun step :: "monitor \<Rightarrow> event \<Rightarrow> monitor" where
  "step s (CallMeasureLatency u) = snd (measureLatency u s)"
| "step s (CallFetchSupportedUnits u) = snd (fetchSupportedUnits u s)"
| "step s (Respond p resp elapsed) = respond p resp elapsed s"
| "step s (Tick d) = s\<lparr>now := now s + int d\<rparr>"
| "step s ClearCaches = clearCaches s"

definition run :: "event list \<Rightarrow> monitor" where
  "run es = foldl step initialMonitor es"

text \<open>The probes of one kind for one URL that wait for the network.\<close>

definition outstanding :: "probeKind \<Rightarrow> url \<Rightarrow> monitor \<Rightarrow> task list" where
  "outstanding k u s = filter (\<lambda>t. taskKind t = k \<and> taskUrl t = u) (inflight s)"

subsection \<open>The invariant of the monitor\<close>

text \<open>
  The invariant of the monitor. Tasks in flight have distinct promises, issued earlier,
  and each is the registered promise of its kind and URL; every registered promise belongs
  to a task in flight; a URL with a registered promise has no fresh cache entry; cache
  entries hold a value, never null; a settled promise is no longer in flight.
\<close>

definition invTasks :: "monitor \<Rightarrow> bool" where
  "invTasks s =
     (distinct (map taskPromise (inflight s)) \<and>
      (\<forall>t \<in> set (inflight s).
         taskPromise t < nextPromise s \<and>
         (taskKind t = LatencyProbe \<longrightarrow>
            pendingRequests s (taskUrl t) = Some (taskPromise t)) \<and>
         (taskKind t = CapabilityProbe \<longrightarrow>
            pendingCurrencyRequests s (taskUrl t) = Some (taskPromise t))))"

definition invPending :: "monitor \<Rightarrow> bool" where
  "invPending s =
     ((\<forall>u p. pendingRequests s u = Some p \<longrightarrow>
         (\<exists>t \<in> set (inflight s).
            taskPromise t = p \<and> taskKind t = LatencyProbe \<and> taskUrl t = u)) \<and>
      (\<forall>u p. pendingCurrencyRequests s u = Some p \<longrightarrow>
         (\<exists>t \<in> set (inflight s).
            taskPromise t = p \<and> taskKind t = CapabilityProbe \<and> taskUrl t = u)))"

definition invStale :: "monitor \<Rightarrow> bool" where
  "invStale s =
     ((\<forall>u. pendingRequests s u \<noteq> None \<longrightarrow> \<not> isFresh (latencyCache s u) (now s)) \<and>
      (\<forall>u. pendingCurrencyRequests s u \<noteq> None \<longrightarrow> \<not> isFresh (currencyCache s u) (now s)))"

definition invCache :: "monitor \<Rightarrow> bool" where
  "invCache s =
     ((\<forall>u e. latencyCache s u = Some e \<longrightarrow> cachedValue e \<noteq> None) \<and>
      (\<forall>u e. currencyCache s u = Some e \<longrightarrow> cachedValue e \<noteq> None))"

definition invSettled :: "monitor \<Rightarrow> bool" where
  "invSettled s =
     (\<forall>p. settled s p \<noteq> None \<longrightarrow>
        p < nextPromise s \<and> p \<notin> taskPromise ` set (inflight s))"

definition monitorInv :: "monitor \<Rightarrow> bool" where
  "monitorInv s = (invTasks s \<and> invPending s \<and> invStale s \<and> invCache s \<and> invSettled s)"

text \<open>A response that reaches \<open>response.ok\<close> and passes it.\<close>

definition succeeded :: "response \<Rightarrow> bool" where
  "succeeded resp = (case resp of Http ok body \<Rightarrow> ok | _ \<Rightarrow> False)"

text \<open>The parsed body of a response that passed \<open>response.ok\<close>, if \<open>json()\<close> could read it.\<close>

definition parsedBody :: "response \<Rightarrow> json option" where
  "parsedBody resp = (case resp of Http ok body \<Rightarrow> if ok then body else None | _ \<Rightarrow> None)"

section \<open>Properties of the score\<close>

lemmas parse_defs = parseInt_def parseFloat_def takeSign_def isWhiteSpace_def isDigit_def
  digitsVal_def exponentPart_def scale10_def orDefault_def toLowerCase_def toLowerCase_char_def

lemma jadd_zero [simp]: "jadd x (Num 0) = x"
  by (cases x) simp_all

lemma calculateScore_blocks:
  "calculateScore st d =
     jadd (jsub (jadd (jadd (jadd (statusTerm (weights st) d) (activityTerm (weights st) d))
                            (capacityTerm (weights st) d))
                      (channelsTerm (weights st) d))
                (latencyPenalty (weights st) d))
          (currencyTerm (weights st) d)"
  by (simp add: calculateScore_def statusTerm_def activityTerm_def capacityTerm_def
      channelsTerm_def latencyPenalty_def currencyTerm_def Let_def)

lemma isCount_cases:
  assumes "isCount x"
  obtains n :: nat where "x = Num (real n)"
proof -
  from assms obtain r where r: "x = Num r" "0 \<le> r" "r = of_int \<lfloor>r\<rfloor>"
    by (cases x) auto
  then have "0 \<le> \<lfloor>r\<rfloor>" by simp
  then have "r = real (nat \<lfloor>r\<rfloor>)" using r(3) by simp
  with r(1) show ?thesis using that by blast
qed

lemma isWeight_cases:
  assumes "isWeight x"
  obtains r where "x = Num r" "0 \<le> r"
  using assms by (cases x) auto

lemma modulationOf_range:
  assumes "0 \<le> m" "0 \<le> me" "0 \<le> e" "0 \<le> we"
  shows "0 \<le> modulationOf m me e we" and "modulationOf m me e we \<le> 1"
proof -
  have "0 \<le> (if 0 < m + me + e then e / (m + me + e) else 0)"
    using assms by simp
  then have "0 \<le> (if 0 < m + me + e then e / (m + me + e) else 0) * (we / 100)"
    using assms(4) by (intro mult_nonneg_nonneg) simp_all
  then show "modulationOf m me e we \<le> 1"
    unfolding modulationOf_def by simp
  show "0 \<le> modulationOf m me e we"
    unfolding modulationOf_def by simp
qed

lemma activityTerm_Num:
  assumes "mints d = Num m" "melts d = Num me" "errors d = Num e"
    "w_mints w = Num wm" "w_melts w = Num wme" "w_errors w = Num we"
  shows "activityTerm w d =
     Num (if 0 < m * wm + me * wme
          then (m * wm + me * wme) * modulationOf m me e we else 0)"
  using assms by (simp add: activityTerm_def modulationOf_def Let_def)

lemma activityTerm_bounds:
  assumes "mints d = Num m" "melts d = Num me" "errors d = Num e"
    "w_mints w = Num wm" "w_melts w = Num wme" "w_errors w = Num we"
    "0 \<le> m" "0 \<le> me" "0 \<le> e" "0 \<le> we" "0 \<le> wm" "0 \<le> wme"
  shows "\<exists>x. activityTerm w d = Num x \<and> 0 \<le> x \<and> x \<le> m * wm + me * wme"
proof (cases "0 < m * wm + me * wme")
  case True
  have k: "0 \<le> modulationOf m me e we" "modulationOf m me e we \<le> 1"
    using modulationOf_range[OF assms(7-10)] by blast+
  have eq: "activityTerm w d = Num ((m * wm + me * wme) * modulationOf m me e we)"
    using activityTerm_Num[OF assms(1-6)] True by simp
  have "0 \<le> (m * wm + me * wme) * modulationOf m me e we"
    using True k(1) by (intro mult_nonneg_nonneg) simp_all
  moreover have "(m * wm + me * wme) * modulationOf m me e we \<le> (m * wm + me * wme) * 1"
    using True k(2) by (intro mult_left_mono) simp_all
  ultimately show ?thesis using eq by simp
next
  case False
  have "0 \<le> m * wm + me * wme" using assms(7,8,11,12) by simp
  then show ?thesis using False activityTerm_Num[OF assms(1-6)] by simp
qed

lemma capacityTerm_nonneg:
  assumes "capacity d = Num (real c)" "w_capacity w = Num wc" "0 \<le> wc"
  shows "\<exists>x. capacityTerm w d = Num x \<and> 0 \<le> x"
proof (cases "c = 0")
  case True
  then show ?thesis using assms by (simp add: capacityTerm_def)
next
  case False
  then have c: "1 \<le> real c" by simp
  have eq: "capacityTerm w d = Num (log 10 (real c) * wc)"
    using assms False by (simp add: capacityTerm_def)
  have "0 \<le> log 10 (real c)" using c by simp
  then have "0 \<le> log 10 (real c) * wc" using assms(3) by (intro mult_nonneg_nonneg)
  then show ?thesis using eq by simp
qed

lemma channelsTerm_Num:
  assumes "channels d = Num (real c)" "w_channels w = Num wc"
  shows "channelsTerm w d = Num (real c * wc)"
  using assms by (simp add: channelsTerm_def)

lemma latencyPenalty_nonneg:
  assumes "latency d = Num l" "w_latency w = Num wl" "0 \<le> l" "0 \<le> wl"
  shows "\<exists>x. latencyPenalty w d = Num x \<and> 0 \<le> x"
  using assms by (simp add: latencyPenalty_def)

lemma currencyTerm_Num:
  assumes "currencies d = Num c" "w_currency w = Num wc"
  shows "currencyTerm w d = Num (c * wc)"
  using assms by (simp add: currencyTerm_def)

lemma score_lower:
  assumes w: "normalizedWeights w" and d: "normalizedRecord d" and ws: "weights st = w"
    and l: "latencyPenalty w d = Num xl"
  shows "\<exists>s. calculateScore st d = Num s \<and>
    (if w_status w \<and> truthy (isUp d) then 1000000000 else 0) - xl \<le> s"
proof -
  from w obtain wm wme we wc wh wu where
    W: "w_mints w = Num wm" "w_melts w = Num wme" "w_errors w = Num we"
       "w_capacity w = Num wc" "w_channels w = Num wh" "w_currency w = Num wu"
       "0 \<le> wm" "0 \<le> wme" "0 \<le> we" "0 \<le> wc" "0 \<le> wh" "0 \<le> wu"
    unfolding normalizedWeights_def by (auto elim!: isWeight_cases)
  from d obtain m me e c h u :: nat where
    D: "mints d = Num (real m)" "melts d = Num (real me)" "errors d = Num (real e)"
       "capacity d = Num (real c)" "channels d = Num (real h)" "currencies d = Num (real u)"
    unfolding normalizedRecord_def by (auto elim!: isCount_cases)
  obtain xa where A: "activityTerm w d = Num xa" "0 \<le> xa"
    using activityTerm_bounds[OF D(1-3) W(1-3)] W by auto
  obtain xc where C: "capacityTerm w d = Num xc" "0 \<le> xc"
    using capacityTerm_nonneg[OF D(4) W(4)] W by auto
  have H: "channelsTerm w d = Num (real h * wh)" by (rule channelsTerm_Num[OF D(5) W(5)])
  have U: "currencyTerm w d = Num (real u * wu)" by (rule currencyTerm_Num[OF D(6) W(6)])
  have S: "statusTerm w d = Num (if w_status w \<and> truthy (isUp d) then 1000000000 else 0)"
    by (simp add: statusTerm_def)
  have "0 \<le> real h * wh" "0 \<le> real u * wu" using W by simp_all
  then show ?thesis
    using A C l by (simp add: calculateScore_blocks ws S H U)
qed

lemma score_upper:
  assumes w: "normalizedWeights w" and d: "normalizedRecord d" and ws: "weights st = w"
    and D: "mints d = Num m" "melts d = Num me" "capacityTerm w d = Num xc"
       "channels d = Num (real h)" "currencies d = Num u"
    and W: "w_mints w = Num wm" "w_melts w = Num wme"
       "w_channels w = Num wh" "w_currency w = Num wu"
  shows "\<exists>s. calculateScore st d = Num s \<and>
    s \<le> (if w_status w \<and> truthy (isUp d) then 1000000000 else 0) +
         m * wm + me * wme + xc + real h * wh + u * wu"
proof -
  from w W obtain we wl where
    W': "w_errors w = Num we" "w_latency w = Num wl"
       "0 \<le> wm" "0 \<le> wme" "0 \<le> we" "0 \<le> wh" "0 \<le> wu" "0 \<le> wl"
    unfolding normalizedWeights_def by (auto elim!: isWeight_cases)
  from d obtain e l :: nat where
    D': "errors d = Num (real e)" "latency d = Num (real l)"
    unfolding normalizedRecord_def by (auto elim!: isCount_cases)
  from d D have m0: "0 \<le> m" "0 \<le> me"
    unfolding normalizedRecord_def by auto
  obtain xa where A: "activityTerm w d = Num xa" "xa \<le> m * wm + me * wme"
    using activityTerm_bounds[OF D(1,2) D'(1) W(1,2) W'(1)] W' m0 by auto
  have H: "channelsTerm w d = Num (real h * wh)"
    by (rule channelsTerm_Num[OF D(4) W(3)])
  obtain xl where L: "latencyPenalty w d = Num xl" "0 \<le> xl"
    using latencyPenalty_nonneg[OF D'(2) W'(2)] W' by auto
  have U: "currencyTerm w d = Num (u * wu)" by (rule currencyTerm_Num[OF D(5) W(4)])
  have S: "statusTerm w d = Num (if w_status w \<and> truthy (isUp d) then 1000000000 else 0)"
    by (simp add: statusTerm_def)
  show ?thesis
    using A L by (simp add: calculateScore_blocks ws S H U D(3))
qed

text \<open>
  C1. In weighted mode with the status criterion on, non-negative weights and every
  criterion's weighted magnitude below a sixth of the status bias, a record that is up
  scores strictly above a record that is down, whatever their other fields are, and the
  sort comparison puts it first.
\<close>

theorem status_bias_dominates:
  assumes "mode st = Weighted" and "w_status (weights st)"
    and w: "normalizedWeights (weights st)"
    and a: "normalizedRecord a" and b: "normalizedRecord b"
    and ba: "wellBelow (weights st) a" and bb: "wellBelow (weights st) b"
    and up: "truthy (isUp a)" and down: "\<not> truthy (isUp b)"
  shows "jgt (calculateScore st a) (calculateScore st b) \<and> jlt (sortCompare st a b) (Num 0)"
proof -
  from w obtain wm wme wh wu where
    W: "w_mints (weights st) = Num wm" "w_melts (weights st) = Num wme"
       "w_channels (weights st) = Num wh" "w_currency (weights st) = Num wu"
    unfolding normalizedWeights_def by (auto elim!: isWeight_cases)
  from ba obtain xl where la: "latencyPenalty (weights st) a = Num xl"
    unfolding wellBelow_def Let_def by (cases "latencyPenalty (weights st) a") auto
  from bb obtain xc where cb: "capacityTerm (weights st) b = Num xc"
    unfolding wellBelow_def Let_def by (cases "capacityTerm (weights st) b") auto
  from b obtain m me h u :: nat where
    B: "mints b = Num (real m)" "melts b = Num (real me)"
       "channels b = Num (real h)" "currencies b = Num (real u)"
    unfolding normalizedRecord_def by (auto elim!: isCount_cases)
  obtain sa where sa: "calculateScore st a = Num sa" "1000000000 - xl \<le> sa"
    using score_lower[OF w a refl la] assms(2) up by auto
  obtain sb where sb: "calculateScore st b = Num sb"
      "sb \<le> real m * wm + real me * wme + xc + real h * wh + real u * wu"
    using score_upper[OF w b refl B(1,2) cb B(3,4) W] down by auto
  have "xl < 1000000000 / 6"
    using ba la by (simp add: wellBelow_def Let_def)
  moreover have "real m * wm < 1000000000 / 6" "real me * wme < 1000000000 / 6"
      "xc < 1000000000 / 6" "real h * wh < 1000000000 / 6" "real u * wu < 1000000000 / 6"
    using bb B W cb by (simp_all add: wellBelow_def Let_def)
  ultimately have lt: "sb < sa" using sa(2) sb(2) by linarith
  then have "jgt (calculateScore st a) (calculateScore st b)" by (simp add: sa sb)
  moreover have "jlt (sortCompare st a b) (Num 0)"
    using lt assms(1) by (simp add: sortCompare_def primaryCompare_def sa sb)
  ultimately show ?thesis by simp
qed

theorem status_bias_dominates_witness:
  "jgt (calculateScore initialState
          (getRowData (emptyRow\<lparr>data_url := Some ''https://a'', data_up := Some ''1'',
             data_latency := Some ''2500''\<rparr>)))
       (calculateScore initialState
          (getRowData (emptyRow\<lparr>data_url := Some ''https://b'', data_up := Some ''0'',
             data_capacity := Some ''1000'', data_channels := Some ''40'',
             data_currencies := Some ''3'', data_latency := Some ''12'',
             data_mints := Some ''5000'', data_melts := Some ''7000''\<rparr>))) \<and>
   jlt (sortCompare initialState
          (getRowData (emptyRow\<lparr>data_url := Some ''https://a'', data_up := Some ''1'',
             data_latency := Some ''2500''\<rparr>))
          (getRowData (emptyRow\<lparr>data_url := Some ''https://b'', data_up := Some ''0'',
             data_capacity := Some ''1000'', data_channels := Some ''40'',
             data_currencies := Some ''3'', data_latency := Some ''12'',
             data_mints := Some ''5000'', data_melts := Some ''7000''\<rparr>)))
       (Num 0)"
proof -
  have l: "log 10 1000 = 3" using log_pow_cancel[of 10 3] by simp
  show ?thesis
    by (rule status_bias_dominates)
       (simp_all add: initialState_def DEFAULTS_def normalizedWeights_def normalizedRecord_def
          wellBelow_def capacityTerm_def latencyPenalty_def getRowData_def emptyRow_def
          parse_defs l)
qed

lemma terms_Num:
  assumes w: "normalizedWeights w" and d: "normalizedRecord d"
  shows "\<exists>xs xa xc xh xl xu.
           statusTerm w d = Num xs \<and> activityTerm w d = Num xa \<and> capacityTerm w d = Num xc \<and>
           channelsTerm w d = Num xh \<and> latencyPenalty w d = Num xl \<and> currencyTerm w d = Num xu"
proof -
  from w obtain wm wme we wc wh wu wl where
    W: "w_mints w = Num wm" "w_melts w = Num wme" "w_errors w = Num we"
       "w_capacity w = Num wc" "w_channels w = Num wh" "w_currency w = Num wu"
       "w_latency w = Num wl"
       "0 \<le> wm" "0 \<le> wme" "0 \<le> we" "0 \<le> wc" "0 \<le> wh" "0 \<le> wu" "0 \<le> wl"
    unfolding normalizedWeights_def by (auto elim!: isWeight_cases)
  from d obtain m me e c h u l :: nat where
    D: "mints d = Num (real m)" "melts d = Num (real me)" "errors d = Num (real e)"
       "capacity d = Num (real c)" "channels d = Num (real h)" "currencies d = Num (real u)"
       "latency d = Num (real l)"
    unfolding normalizedRecord_def by (auto elim!: isCount_cases)
  have "\<exists>xs. statusTerm w d = Num xs" by (simp add: statusTerm_def)
  moreover have "\<exists>xa. activityTerm w d = Num xa"
    using activityTerm_Num[OF D(1-3) W(1-3)] by simp
  moreover have "\<exists>xc. capacityTerm w d = Num xc"
    using capacityTerm_nonneg[OF D(4) W(4)] W by auto
  moreover have "\<exists>xh. channelsTerm w d = Num xh"
    using channelsTerm_Num[OF D(5) W(5)] by simp
  moreover have "\<exists>xl. latencyPenalty w d = Num xl"
    using latencyPenalty_nonneg[OF D(7) W(7)] W by auto
  moreover have "\<exists>xu. currencyTerm w d = Num xu"
    using currencyTerm_Num[OF D(6) W(6)] by simp
  ultimately show ?thesis by blast
qed


lemma errorRate_mono:
  assumes "0 \<le> t" "0 \<le> e1" "e1 \<le> e2"
  shows "(if 0 < t + e1 then e1 / (t + e1) else 0) \<le> (if 0 < t + e2 then e2 / (t + e2) else (0::real))"
proof (cases "0 < t + e1")
  case True
  then have p2: "0 < t + e2" using assms by linarith
  have "e1 * (t + e2) \<le> e2 * (t + e1)"
  proof -
    have "e1 * t \<le> e2 * t" using assms by (intro mult_right_mono)
    then show ?thesis by (simp add: algebra_simps)
  qed
  then have "e1 / (t + e1) \<le> e2 / (t + e2)"
    using True p2 by (simp add: frac_le_eq divide_le_0_iff mult.commute) 
  then show ?thesis using True p2 by simp
next
  case False
  then show ?thesis using assms by simp
qed

lemma modulationOf_antimono:
  assumes "0 \<le> m" "0 \<le> me" "0 \<le> e1" "e1 \<le> e2" "0 \<le> we"
  shows "modulationOf m me e2 we \<le> modulationOf m me e1 we"
proof -
  have t: "0 \<le> m + me" using assms by simp
  have "(if 0 < m + me + e1 then e1 / (m + me + e1) else 0) * (we / 100)
        \<le> (if 0 < m + me + e2 then e2 / (m + me + e2) else 0) * (we / 100)"
    using errorRate_mono[OF t assms(3,4)] assms(5) by (intro mult_right_mono) simp_all
  then show ?thesis unfolding modulationOf_def by linarith
qed

lemma activityTerm_errors_antimono:
  assumes w: "normalizedWeights w" and d: "normalizedRecord d"
    and e: "isCount e1" "isCount e2" "jle e1 e2"
  shows "jle (activityTerm w (d\<lparr>errors := e2\<rparr>)) (activityTerm w (d\<lparr>errors := e1\<rparr>))"
proof -
  from w obtain wm wme we where
    W: "w_mints w = Num wm" "w_melts w = Num wme" "w_errors w = Num we" "0 \<le> we"
    unfolding normalizedWeights_def by (auto elim!: isWeight_cases)
  from d obtain m me :: nat where
    D: "mints d = Num (real m)" "melts d = Num (real me)"
    unfolding normalizedRecord_def by (auto elim!: isCount_cases)
  from e obtain n1 n2 :: nat where E: "e1 = Num (real n1)" "e2 = Num (real n2)" "n1 \<le> n2"
    by (auto elim!: isCount_cases)
  have a1: "activityTerm w (d\<lparr>errors := e1\<rparr>) =
      Num (if 0 < real m * wm + real me * wme
           then (real m * wm + real me * wme) * modulationOf (real m) (real me) (real n1) we else 0)"
    by (rule activityTerm_Num) (simp_all add: D W E)
  have a2: "activityTerm w (d\<lparr>errors := e2\<rparr>) =
      Num (if 0 < real m * wm + real me * wme
           then (real m * wm + real me * wme) * modulationOf (real m) (real me) (real n2) we else 0)"
    by (rule activityTerm_Num) (simp_all add: D W E)
  have k: "modulationOf (real m) (real me) (real n2) we \<le> modulationOf (real m) (real me) (real n1) we"
    using E(3) W(4) by (intro modulationOf_antimono) simp_all
  show ?thesis
  proof (cases "0 < real m * wm + real me * wme")
    case True
    then have "(real m * wm + real me * wme) * modulationOf (real m) (real me) (real n2) we
        \<le> (real m * wm + real me * wme) * modulationOf (real m) (real me) (real n1) we"
      using k by (intro mult_left_mono) simp_all
    then show ?thesis using True by (simp add: a1 a2)
  next
    case False
    then show ?thesis by (simp add: a1 a2)
  qed
qed

lemma no_activity_ignores_errors:
  assumes "\<not> jgt (activityScore (weights st) d) (Num 0)"
  shows "calculateScore st (d\<lparr>errors := e\<rparr>) = calculateScore st d"
  using assms by (simp add: calculateScore_def activityScore_def Let_def)

lemma score_is_activity_plus_rest:
  assumes w: "normalizedWeights (weights st)" and d: "normalizedRecord d"
  shows "calculateScore st d =
     jadd (activityTerm (weights st) d) (calculateScore st (d\<lparr>mints := Num 0, melts := Num 0\<rparr>))"
proof -
  obtain xs xa xc xh xl xu where
    T: "statusTerm (weights st) d = Num xs" "activityTerm (weights st) d = Num xa"
       "capacityTerm (weights st) d = Num xc" "channelsTerm (weights st) d = Num xh"
       "latencyPenalty (weights st) d = Num xl" "currencyTerm (weights st) d = Num xu"
    using terms_Num[OF w d] by blast
  let ?d0 = "d\<lparr>mints := Num 0, melts := Num 0\<rparr>"
  from w obtain wm wme where "w_mints (weights st) = Num wm" "w_melts (weights st) = Num wme"
    unfolding normalizedWeights_def by (auto elim!: isWeight_cases)
  then have A0: "activityTerm (weights st) ?d0 = Num 0"
    by (simp add: activityTerm_def)
  have R: "statusTerm (weights st) ?d0 = statusTerm (weights st) d"
     "capacityTerm (weights st) ?d0 = capacityTerm (weights st) d"
     "channelsTerm (weights st) ?d0 = channelsTerm (weights st) d"
     "latencyPenalty (weights st) ?d0 = latencyPenalty (weights st) d"
     "currencyTerm (weights st) ?d0 = currencyTerm (weights st) d"
    by (simp_all add: statusTerm_def capacityTerm_def channelsTerm_def
        latencyPenalty_def currencyTerm_def)
  show ?thesis
    by (simp add: calculateScore_blocks[of st d] calculateScore_blocks[of st ?d0] T A0 R)
qed

lemma score_le:
  assumes w: "normalizedWeights (weights st)"
    and d1: "normalizedRecord d1" and d2: "normalizedRecord d2"
    and le: "jle (statusTerm (weights st) d1) (statusTerm (weights st) d2)"
      "jle (activityTerm (weights st) d1) (activityTerm (weights st) d2)"
      "jle (capacityTerm (weights st) d1) (capacityTerm (weights st) d2)"
      "jle (channelsTerm (weights st) d1) (channelsTerm (weights st) d2)"
      "jle (latencyPenalty (weights st) d2) (latencyPenalty (weights st) d1)"
      "jle (currencyTerm (weights st) d1) (currencyTerm (weights st) d2)"
  shows "jle (calculateScore st d1) (calculateScore st d2)"
proof -
  obtain xs xa xc xh xl xu where
    T: "statusTerm (weights st) d1 = Num xs" "activityTerm (weights st) d1 = Num xa"
       "capacityTerm (weights st) d1 = Num xc" "channelsTerm (weights st) d1 = Num xh"
       "latencyPenalty (weights st) d1 = Num xl" "currencyTerm (weights st) d1 = Num xu"
    using terms_Num[OF w d1] by blast
  obtain ys ya yc yh yl yu where
    U: "statusTerm (weights st) d2 = Num ys" "activityTerm (weights st) d2 = Num ya"
       "capacityTerm (weights st) d2 = Num yc" "channelsTerm (weights st) d2 = Num yh"
       "latencyPenalty (weights st) d2 = Num yl" "currencyTerm (weights st) d2 = Num yu"
    using terms_Num[OF w d2] by blast
  show ?thesis
    using le by (simp add: calculateScore_blocks T U)
qed

lemma jle_same: "x = y \<Longrightarrow> y = Num r \<Longrightarrow> jle x y"
  by simp

lemma normalizedRecord_errors:
  "normalizedRecord d \<Longrightarrow> isCount e \<Longrightarrow> normalizedRecord (d\<lparr>errors := e\<rparr>)"
  by (simp add: normalizedRecord_def)

lemma score_errors_antimono:
  assumes w: "normalizedWeights (weights st)" and d: "normalizedRecord d"
    and e: "isCount e1" "isCount e2" "jle e1 e2"
  shows "jle (calculateScore st (d\<lparr>errors := e2\<rparr>)) (calculateScore st (d\<lparr>errors := e1\<rparr>))"
proof -
  let ?w = "weights st"
  have n1: "normalizedRecord (d\<lparr>errors := e1\<rparr>)" and n2: "normalizedRecord (d\<lparr>errors := e2\<rparr>)"
    using d e by (simp_all add: normalizedRecord_errors)
  obtain xs xa xc xh xl xu where
    T: "statusTerm ?w (d\<lparr>errors := e1\<rparr>) = Num xs" "activityTerm ?w (d\<lparr>errors := e1\<rparr>) = Num xa"
       "capacityTerm ?w (d\<lparr>errors := e1\<rparr>) = Num xc" "channelsTerm ?w (d\<lparr>errors := e1\<rparr>) = Num xh"
       "latencyPenalty ?w (d\<lparr>errors := e1\<rparr>) = Num xl" "currencyTerm ?w (d\<lparr>errors := e1\<rparr>) = Num xu"
    using terms_Num[OF w n1] by blast
  show ?thesis
  proof (rule score_le[OF w n2 n1])
    show "jle (activityTerm ?w (d\<lparr>errors := e2\<rparr>)) (activityTerm ?w (d\<lparr>errors := e1\<rparr>))"
      by (rule activityTerm_errors_antimono[OF w d e])
    show "jle (statusTerm ?w (d\<lparr>errors := e2\<rparr>)) (statusTerm ?w (d\<lparr>errors := e1\<rparr>))"
      by (rule jle_same[OF _ T(1)]) (simp add: statusTerm_def)
    show "jle (capacityTerm ?w (d\<lparr>errors := e2\<rparr>)) (capacityTerm ?w (d\<lparr>errors := e1\<rparr>))"
      by (rule jle_same[OF _ T(3)]) (simp add: capacityTerm_def)
    show "jle (channelsTerm ?w (d\<lparr>errors := e2\<rparr>)) (channelsTerm ?w (d\<lparr>errors := e1\<rparr>))"
      by (rule jle_same[OF _ T(4)]) (simp add: channelsTerm_def)
    have "latencyPenalty ?w (d\<lparr>errors := e2\<rparr>) = latencyPenalty ?w (d\<lparr>errors := e1\<rparr>)"
      by (simp add: latencyPenalty_def)
    then show "jle (latencyPenalty ?w (d\<lparr>errors := e1\<rparr>)) (latencyPenalty ?w (d\<lparr>errors := e2\<rparr>))"
      by (simp add: T(5))
    show "jle (currencyTerm ?w (d\<lparr>errors := e2\<rparr>)) (currencyTerm ?w (d\<lparr>errors := e1\<rparr>))"
      by (rule jle_same[OF _ T(6)]) (simp add: currencyTerm_def)
  qed
qed

lemma activityTerm_nonneg:
  assumes w: "normalizedWeights w" and d: "normalizedRecord d"
  shows "jle (Num 0) (activityTerm w d)"
proof -
  from w obtain wm wme we where
    W: "w_mints w = Num wm" "w_melts w = Num wme" "w_errors w = Num we"
       "0 \<le> wm" "0 \<le> wme" "0 \<le> we"
    unfolding normalizedWeights_def by (auto elim!: isWeight_cases)
  from d obtain m me e :: nat where
    D: "mints d = Num (real m)" "melts d = Num (real me)" "errors d = Num (real e)"
    unfolding normalizedRecord_def by (auto elim!: isCount_cases)
  show ?thesis
    using activityTerm_bounds[OF D W(1-3)] W(4-6) by auto
qed

lemma no_activity_term_zero:
  assumes "\<not> jgt (activityScore w d) (Num 0)"
  shows "activityTerm w d = Num 0"
  using assms by (simp add: activityTerm_def activityScore_def Let_def)

text \<open>
  C3. For records and weights of the declared domain the activity term is never
  negative, it is exactly what the record's mints and melts add to the score, raising
  the errors (all else fixed) never raises it nor the score, and where the activity is
  not positive the term is zero and the errors field has no effect on the score at all.
\<close>

theorem activity_modulation:
  assumes w: "normalizedWeights (weights st)" and d: "normalizedRecord d"
  shows "jle (Num 0) (activityTerm (weights st) d) \<and>
    calculateScore st d =
      jadd (activityTerm (weights st) d) (calculateScore st (d\<lparr>mints := Num 0, melts := Num 0\<rparr>)) \<and>
    (\<forall>e1 e2. isCount e1 \<and> isCount e2 \<and> jle e1 e2 \<longrightarrow>
       jle (activityTerm (weights st) (d\<lparr>errors := e2\<rparr>))
           (activityTerm (weights st) (d\<lparr>errors := e1\<rparr>)) \<and>
       jle (calculateScore st (d\<lparr>errors := e2\<rparr>)) (calculateScore st (d\<lparr>errors := e1\<rparr>))) \<and>
    (\<not> jgt (activityScore (weights st) d) (Num 0) \<longrightarrow>
       activityTerm (weights st) d = Num 0 \<and>
       (\<forall>e. calculateScore st (d\<lparr>errors := e\<rparr>) = calculateScore st d))"
  using activityTerm_nonneg[OF w d] score_is_activity_plus_rest[OF w d]
    activityTerm_errors_antimono[OF w d] score_errors_antimono[OF w d]
    no_activity_term_zero[of "weights st" d] no_activity_ignores_errors[of st d]
  by blast

theorem activity_modulation_witness:
  "jle (Num 0) (activityTerm DEFAULTS
      (getRowData (emptyRow\<lparr>data_mints := Some ''100'', data_melts := Some ''50'',
         data_errors := Some ''150''\<rparr>))) \<and>
   jle (activityTerm DEFAULTS
          ((getRowData (emptyRow\<lparr>data_mints := Some ''100'', data_melts := Some ''50'',
             data_errors := Some ''150''\<rparr>))\<lparr>errors := Num 300\<rparr>))
       (activityTerm DEFAULTS
          ((getRowData (emptyRow\<lparr>data_mints := Some ''100'', data_melts := Some ''50'',
             data_errors := Some ''150''\<rparr>))\<lparr>errors := Num 150\<rparr>)) \<and>
   calculateScore initialState ((getRowData emptyRow)\<lparr>errors := Num 7\<rparr>) =
     calculateScore initialState (getRowData emptyRow)"
proof -
  let ?d = "getRowData (emptyRow\<lparr>data_mints := Some ''100'', data_melts := Some ''50'',
         data_errors := Some ''150''\<rparr>)"
  have w: "normalizedWeights (weights initialState)"
    by (simp add: initialState_def DEFAULTS_def normalizedWeights_def)
  have d: "normalizedRecord ?d"
    by (simp add: normalizedRecord_def getRowData_def emptyRow_def parse_defs)
  have d0: "normalizedRecord (getRowData emptyRow)"
    by (simp add: normalizedRecord_def getRowData_def emptyRow_def parse_defs)
  have z: "\<not> jgt (activityScore (weights initialState) (getRowData emptyRow)) (Num 0)"
    by (simp add: activityScore_def initialState_def DEFAULTS_def getRowData_def emptyRow_def
        parse_defs)
  have e: "isCount (Num 150) \<and> isCount (Num 300) \<and> jle (Num 150) (Num 300)" by simp
  have ws: "weights initialState = DEFAULTS" by (simp add: initialState_def)
  note T = activity_modulation[OF w d]
  note T0 = activity_modulation[OF w d0]
  have a: "jle (Num 0) (activityTerm (weights initialState) ?d)"
    by (rule T[THEN conjunct1])
  have b: "jle (activityTerm (weights initialState) (?d\<lparr>errors := Num 300\<rparr>))
       (activityTerm (weights initialState) (?d\<lparr>errors := Num 150\<rparr>))"
    by (rule T[THEN conjunct2, THEN conjunct2, THEN conjunct1, rule_format, OF e, THEN conjunct1])
  have c: "calculateScore initialState ((getRowData emptyRow)\<lparr>errors := Num 7\<rparr>) =
     calculateScore initialState (getRowData emptyRow)"
    by (rule T0[THEN conjunct2, THEN conjunct2, THEN conjunct2, rule_format, OF z, THEN conjunct2, rule_format])
  show ?thesis using a b c unfolding ws by (intro conjI)
qed

lemma capacityTerm_mono:
  assumes wc: "isWeight (w_capacity w)" and c: "isCount (capacity d1)" "isCount (capacity d2)"
    and le: "jle (capacity d1) (capacity d2)"
  shows "jle (capacityTerm w d1) (capacityTerm w d2)"
proof -
  from wc obtain k where W: "w_capacity w = Num k" "0 \<le> k" by (auto elim!: isWeight_cases)
  from c le obtain c1 c2 :: nat where
    C: "capacity d1 = Num (real c1)" "capacity d2 = Num (real c2)" "c1 \<le> c2"
    by (auto elim!: isCount_cases)
  show ?thesis
  proof (cases "c1 = 0")
    case True
    obtain x where "capacityTerm w d2 = Num x" "0 \<le> x"
      using capacityTerm_nonneg[OF C(2) W] by blast
    then show ?thesis using True C(1) W by (simp add: capacityTerm_def)
  next
    case False
    then have p: "0 < real c1" "0 < real c2" "real c1 \<le> real c2" using C(3) by simp_all
    have "log 10 (real c1) \<le> log 10 (real c2)" using p by simp
    then have "log 10 (real c1) * k \<le> log 10 (real c2) * k"
      using W(2) by (intro mult_right_mono)
    then show ?thesis using p C W by (simp add: capacityTerm_def)
  qed
qed

lemma channelsTerm_mono:
  assumes wc: "isWeight (w_channels w)" and c: "isCount (channels d1)" "isCount (channels d2)"
    and le: "jle (channels d1) (channels d2)"
  shows "jle (channelsTerm w d1) (channelsTerm w d2)"
proof -
  from wc obtain k where W: "w_channels w = Num k" "0 \<le> k" by (auto elim!: isWeight_cases)
  from c le obtain c1 c2 :: nat where
    C: "channels d1 = Num (real c1)" "channels d2 = Num (real c2)" "c1 \<le> c2"
    by (auto elim!: isCount_cases)
  have "real c1 * k \<le> real c2 * k" using C(3) W(2) by (intro mult_right_mono) simp_all
  then show ?thesis
    by (simp add: channelsTerm_Num[OF C(1) W(1)] channelsTerm_Num[OF C(2) W(1)])
qed

lemma currencyTerm_mono:
  assumes wc: "isWeight (w_currency w)" and c: "isCount (currencies d1)" "isCount (currencies d2)"
    and le: "jle (currencies d1) (currencies d2)"
  shows "jle (currencyTerm w d1) (currencyTerm w d2)"
proof -
  from wc obtain k where W: "w_currency w = Num k" "0 \<le> k" by (auto elim!: isWeight_cases)
  from c le obtain c1 c2 :: nat where
    C: "currencies d1 = Num (real c1)" "currencies d2 = Num (real c2)" "c1 \<le> c2"
    by (auto elim!: isCount_cases)
  have "real c1 * k \<le> real c2 * k" using C(3) W(2) by (intro mult_right_mono) simp_all
  then show ?thesis
    by (simp add: currencyTerm_Num[OF C(1) W(1)] currencyTerm_Num[OF C(2) W(1)])
qed

lemma latencyPenalty_mono:
  assumes wl: "isWeight (w_latency w)" and c: "isCount (latency d1)" "isCount (latency d2)"
    and le: "latencyOrdered (latency d1) (latency d2)"
  shows "jle (latencyPenalty w d1) (latencyPenalty w d2)"
proof -
  from wl obtain k where W: "w_latency w = Num k" "0 \<le> k" by (auto elim!: isWeight_cases)
  from c obtain l1 l2 :: nat where
    C: "latency d1 = Num (real l1)" "latency d2 = Num (real l2)"
    by (auto elim!: isCount_cases)
  from le C have o: "l1 \<le> l2" "l2 < 99999 \<or> l1 \<le> 1000 \<or> 99999 \<le> l1"
    by (simp_all add: latencyOrdered_def)
  have a: "real l1 * k \<le> real l2 * k" using o(1) W(2) by (intro mult_right_mono) simp_all
  have b: "l1 \<le> 1000 \<Longrightarrow> real l1 * k \<le> 1000 * k"
    using W(2) by (intro mult_right_mono) simp_all
  show ?thesis
    using o a b by (auto simp: latencyPenalty_def C W)
qed

lemma score_le_cases:
  assumes w: "normalizedWeights (weights st)"
    and d1: "normalizedRecord d1" and d2: "normalizedRecord d2"
    and s: "statusTerm (weights st) d1 = statusTerm (weights st) d2"
    and a: "activityTerm (weights st) d1 = activityTerm (weights st) d2"
    and c: "capacityTerm (weights st) d1 = capacityTerm (weights st) d2 \<or>
            jle (capacityTerm (weights st) d1) (capacityTerm (weights st) d2)"
    and h: "channelsTerm (weights st) d1 = channelsTerm (weights st) d2 \<or>
            jle (channelsTerm (weights st) d1) (channelsTerm (weights st) d2)"
    and l: "latencyPenalty (weights st) d2 = latencyPenalty (weights st) d1 \<or>
            jle (latencyPenalty (weights st) d2) (latencyPenalty (weights st) d1)"
    and u: "currencyTerm (weights st) d1 = currencyTerm (weights st) d2 \<or>
            jle (currencyTerm (weights st) d1) (currencyTerm (weights st) d2)"
  shows "jle (calculateScore st d1) (calculateScore st d2)"
proof -
  obtain xs xa xc xh xl xu where
    T: "statusTerm (weights st) d1 = Num xs" "activityTerm (weights st) d1 = Num xa"
       "capacityTerm (weights st) d1 = Num xc" "channelsTerm (weights st) d1 = Num xh"
       "latencyPenalty (weights st) d1 = Num xl" "currencyTerm (weights st) d1 = Num xu"
    using terms_Num[OF w d1] by blast
  obtain ys ya yc yh yl yu where
    U: "statusTerm (weights st) d2 = Num ys" "activityTerm (weights st) d2 = Num ya"
       "capacityTerm (weights st) d2 = Num yc" "channelsTerm (weights st) d2 = Num yh"
       "latencyPenalty (weights st) d2 = Num yl" "currencyTerm (weights st) d2 = Num yu"
    using terms_Num[OF w d2] by blast
  have "xs = ys" "xa = ya" "xc \<le> yc" "xh \<le> yh" "yl \<le> xl" "xu \<le> yu"
    using s a c h l u by (auto simp: T U)
  then show ?thesis
    by (simp add: calculateScore_blocks T U)
qed


lemma score_capacity_mono:
  assumes w: "normalizedWeights (weights st)" and d: "normalizedRecord d"
    and c: "isCount c1" "isCount c2" "jle c1 c2"
  shows "jle (calculateScore st (d\<lparr>capacity := c1\<rparr>)) (calculateScore st (d\<lparr>capacity := c2\<rparr>))"
proof (rule score_le_cases[OF w])
  show "capacityTerm (weights st) (d\<lparr>capacity := c1\<rparr>) = capacityTerm (weights st) (d\<lparr>capacity := c2\<rparr>) \<or>
    jle (capacityTerm (weights st) (d\<lparr>capacity := c1\<rparr>)) (capacityTerm (weights st) (d\<lparr>capacity := c2\<rparr>))"
    using w c by (intro disjI2 capacityTerm_mono) (simp_all add: normalizedWeights_def)
qed (use d c in \<open>simp_all add: Let_def normalizedRecord_def statusTerm_def activityTerm_def
      channelsTerm_def latencyPenalty_def currencyTerm_def\<close>)

lemma score_channels_mono:
  assumes w: "normalizedWeights (weights st)" and d: "normalizedRecord d"
    and c: "isCount c1" "isCount c2" "jle c1 c2"
  shows "jle (calculateScore st (d\<lparr>channels := c1\<rparr>)) (calculateScore st (d\<lparr>channels := c2\<rparr>))"
proof (rule score_le_cases[OF w])
  show "channelsTerm (weights st) (d\<lparr>channels := c1\<rparr>) = channelsTerm (weights st) (d\<lparr>channels := c2\<rparr>) \<or>
    jle (channelsTerm (weights st) (d\<lparr>channels := c1\<rparr>)) (channelsTerm (weights st) (d\<lparr>channels := c2\<rparr>))"
    using w c by (intro disjI2 channelsTerm_mono) (simp_all add: normalizedWeights_def)
qed (use d c in \<open>simp_all add: Let_def normalizedRecord_def statusTerm_def activityTerm_def
      capacityTerm_def latencyPenalty_def currencyTerm_def\<close>)

lemma score_currencies_mono:
  assumes w: "normalizedWeights (weights st)" and d: "normalizedRecord d"
    and c: "isCount c1" "isCount c2" "jle c1 c2"
  shows "jle (calculateScore st (d\<lparr>currencies := c1\<rparr>)) (calculateScore st (d\<lparr>currencies := c2\<rparr>))"
proof (rule score_le_cases[OF w])
  show "currencyTerm (weights st) (d\<lparr>currencies := c1\<rparr>) = currencyTerm (weights st) (d\<lparr>currencies := c2\<rparr>) \<or>
    jle (currencyTerm (weights st) (d\<lparr>currencies := c1\<rparr>)) (currencyTerm (weights st) (d\<lparr>currencies := c2\<rparr>))"
    using w c by (intro disjI2 currencyTerm_mono) (simp_all add: normalizedWeights_def)
qed (use d c in \<open>simp_all add: Let_def normalizedRecord_def statusTerm_def activityTerm_def
      capacityTerm_def latencyPenalty_def channelsTerm_def\<close>)

lemma score_latency_antimono:
  assumes w: "normalizedWeights (weights st)" and d: "normalizedRecord d"
    and c: "isCount l1" "isCount l2" "latencyOrdered l1 l2"
  shows "jle (calculateScore st (d\<lparr>latency := l2\<rparr>)) (calculateScore st (d\<lparr>latency := l1\<rparr>))"
proof (rule score_le_cases[OF w])
  show "latencyPenalty (weights st) (d\<lparr>latency := l1\<rparr>) = latencyPenalty (weights st) (d\<lparr>latency := l2\<rparr>) \<or>
    jle (latencyPenalty (weights st) (d\<lparr>latency := l1\<rparr>)) (latencyPenalty (weights st) (d\<lparr>latency := l2\<rparr>))"
    using w c by (intro disjI2 latencyPenalty_mono) (simp_all add: normalizedWeights_def)
qed (use d c in \<open>simp_all add: Let_def normalizedRecord_def statusTerm_def activityTerm_def
      capacityTerm_def currencyTerm_def channelsTerm_def\<close>)

lemma sentinel_scored_as_1000:
  assumes "jge l (Num 99999)"
  shows "calculateScore st (d\<lparr>latency := l\<rparr>) = calculateScore st (d\<lparr>latency := Num 1000\<rparr>)"
  using assms by (simp add: calculateScore_def Let_def)

lemma known_latency_below_sentinel:
  assumes w: "normalizedWeights (weights st)" and d: "normalizedRecord d"
    and l: "isCount l" "jgt l (Num 1000)" "jlt l (Num 99999)"
  shows "jle (calculateScore st (d\<lparr>latency := l\<rparr>)) (calculateScore st (d\<lparr>latency := Num 99999\<rparr>))"
    and "jgt (w_latency (weights st)) (Num 0) \<Longrightarrow>
         jlt (calculateScore st (d\<lparr>latency := l\<rparr>)) (calculateScore st (d\<lparr>latency := Num 99999\<rparr>))"
proof -
  let ?w = "weights st"
  let ?d1 = "d\<lparr>latency := l\<rparr>" and ?d2 = "d\<lparr>latency := Num 99999\<rparr>"
  from l obtain n :: nat where n: "l = Num (real n)" "1000 < real n" "real n < 99999"
    by (auto elim!: isCount_cases)
  from w obtain wl where wl: "w_latency ?w = Num wl" "0 \<le> wl"
    unfolding normalizedWeights_def by (auto elim!: isWeight_cases)
  have n1: "normalizedRecord ?d1" using d l(1) by (simp add: normalizedRecord_def)
  obtain xs xa xc xh xl xu where
    T: "statusTerm ?w ?d1 = Num xs" "activityTerm ?w ?d1 = Num xa"
       "capacityTerm ?w ?d1 = Num xc" "channelsTerm ?w ?d1 = Num xh"
       "latencyPenalty ?w ?d1 = Num xl" "currencyTerm ?w ?d1 = Num xu"
    using terms_Num[OF w n1] by blast
  have R: "statusTerm ?w ?d2 = statusTerm ?w ?d1" "activityTerm ?w ?d2 = activityTerm ?w ?d1"
     "capacityTerm ?w ?d2 = capacityTerm ?w ?d1" "channelsTerm ?w ?d2 = channelsTerm ?w ?d1"
     "currencyTerm ?w ?d2 = currencyTerm ?w ?d1"
    by (simp_all add: Let_def statusTerm_def activityTerm_def capacityTerm_def channelsTerm_def
        currencyTerm_def)
  have p1: "xl = real n * wl" using T(5) n wl by (simp add: latencyPenalty_def)
  have p2: "latencyPenalty ?w ?d2 = Num (1000 * wl)" using wl by (simp add: latencyPenalty_def)
  have le: "1000 * wl \<le> real n * wl" using n(2) wl(2) by (intro mult_right_mono) simp_all
  show "jle (calculateScore st ?d1) (calculateScore st ?d2)"
    using le by (simp add: calculateScore_blocks R T p1 p2)
  show "jlt (calculateScore st ?d1) (calculateScore st ?d2)"
    if "jgt (w_latency ?w) (Num 0)"
  proof -
    from that wl have "0 < wl" by simp
    then have "1000 * wl < real n * wl" using n(2) by (intro mult_strict_right_mono) simp_all
    then show ?thesis by (simp add: calculateScore_blocks R T p1 p2)
  qed
qed

text \<open>
  C4, as amended. For non-negative weights the score never decreases when capacity,
  channels or the currency count grows, and never increases when the latency grows
  between two known latencies (below the sentinel 99999), from a latency of at most
  1000 to any larger one, or between two unknown ones. An unknown latency (99999 or
  more) scores exactly as a latency of 1000 does, so it scores at least as high as every
  known latency over 1000, and strictly higher when the latency weight is positive.
\<close>

theorem score_monotone:
  assumes w: "normalizedWeights (weights st)" and d: "normalizedRecord d"
  shows "(\<forall>c1 c2. isCount c1 \<and> isCount c2 \<and> jle c1 c2 \<longrightarrow>
            jle (calculateScore st (d\<lparr>capacity := c1\<rparr>)) (calculateScore st (d\<lparr>capacity := c2\<rparr>))) \<and>
         (\<forall>c1 c2. isCount c1 \<and> isCount c2 \<and> jle c1 c2 \<longrightarrow>
            jle (calculateScore st (d\<lparr>channels := c1\<rparr>)) (calculateScore st (d\<lparr>channels := c2\<rparr>))) \<and>
         (\<forall>c1 c2. isCount c1 \<and> isCount c2 \<and> jle c1 c2 \<longrightarrow>
            jle (calculateScore st (d\<lparr>currencies := c1\<rparr>)) (calculateScore st (d\<lparr>currencies := c2\<rparr>))) \<and>
         (\<forall>l1 l2. isCount l1 \<and> isCount l2 \<and> latencyOrdered l1 l2 \<longrightarrow>
            jle (calculateScore st (d\<lparr>latency := l2\<rparr>)) (calculateScore st (d\<lparr>latency := l1\<rparr>))) \<and>
         (\<forall>l. jge l (Num 99999) \<longrightarrow>
            calculateScore st (d\<lparr>latency := l\<rparr>) = calculateScore st (d\<lparr>latency := Num 1000\<rparr>)) \<and>
         (\<forall>l. isCount l \<and> jgt l (Num 1000) \<and> jlt l (Num 99999) \<longrightarrow>
            jle (calculateScore st (d\<lparr>latency := l\<rparr>))
                (calculateScore st (d\<lparr>latency := Num 99999\<rparr>)) \<and>
            (jgt (w_latency (weights st)) (Num 0) \<longrightarrow>
               jlt (calculateScore st (d\<lparr>latency := l\<rparr>))
                   (calculateScore st (d\<lparr>latency := Num 99999\<rparr>))))"
proof -
  have a: "\<forall>c1 c2. isCount c1 \<and> isCount c2 \<and> jle c1 c2 \<longrightarrow>
            jle (calculateScore st (d\<lparr>capacity := c1\<rparr>)) (calculateScore st (d\<lparr>capacity := c2\<rparr>))"
    using score_capacity_mono[OF w d] by blast
  have b: "\<forall>c1 c2. isCount c1 \<and> isCount c2 \<and> jle c1 c2 \<longrightarrow>
            jle (calculateScore st (d\<lparr>channels := c1\<rparr>)) (calculateScore st (d\<lparr>channels := c2\<rparr>))"
    using score_channels_mono[OF w d] by blast
  have c: "\<forall>c1 c2. isCount c1 \<and> isCount c2 \<and> jle c1 c2 \<longrightarrow>
            jle (calculateScore st (d\<lparr>currencies := c1\<rparr>)) (calculateScore st (d\<lparr>currencies := c2\<rparr>))"
    using score_currencies_mono[OF w d] by blast
  have e: "\<forall>l1 l2. isCount l1 \<and> isCount l2 \<and> latencyOrdered l1 l2 \<longrightarrow>
            jle (calculateScore st (d\<lparr>latency := l2\<rparr>)) (calculateScore st (d\<lparr>latency := l1\<rparr>))"
    using score_latency_antimono[OF w d] by blast
  have f: "\<forall>l. jge l (Num 99999) \<longrightarrow>
            calculateScore st (d\<lparr>latency := l\<rparr>) = calculateScore st (d\<lparr>latency := Num 1000\<rparr>)"
    using sentinel_scored_as_1000[of _ st d] by blast
  have g: "\<forall>l. isCount l \<and> jgt l (Num 1000) \<and> jlt l (Num 99999) \<longrightarrow>
            jle (calculateScore st (d\<lparr>latency := l\<rparr>))
                (calculateScore st (d\<lparr>latency := Num 99999\<rparr>)) \<and>
            (jgt (w_latency (weights st)) (Num 0) \<longrightarrow>
               jlt (calculateScore st (d\<lparr>latency := l\<rparr>))
                   (calculateScore st (d\<lparr>latency := Num 99999\<rparr>)))"
    using known_latency_below_sentinel[OF w d] by blast
  show ?thesis using a b c e f g by (intro conjI)
qed

theorem score_monotone_witness:
  "jle (calculateScore initialState ((getRowData emptyRow)\<lparr>capacity := Num 1\<rparr>))
       (calculateScore initialState ((getRowData emptyRow)\<lparr>capacity := Num 10\<rparr>)) \<and>
   jle (calculateScore initialState ((getRowData emptyRow)\<lparr>channels := Num 2\<rparr>))
       (calculateScore initialState ((getRowData emptyRow)\<lparr>channels := Num 9\<rparr>)) \<and>
   jle (calculateScore initialState ((getRowData emptyRow)\<lparr>currencies := Num 0\<rparr>))
       (calculateScore initialState ((getRowData emptyRow)\<lparr>currencies := Num 4\<rparr>)) \<and>
   jle (calculateScore initialState ((getRowData emptyRow)\<lparr>latency := Num 99999\<rparr>))
       (calculateScore initialState ((getRowData emptyRow)\<lparr>latency := Num 800\<rparr>)) \<and>
   calculateScore initialState ((getRowData emptyRow)\<lparr>latency := Num 99999\<rparr>) =
     calculateScore initialState ((getRowData emptyRow)\<lparr>latency := Num 1000\<rparr>) \<and>
   jlt (calculateScore initialState ((getRowData emptyRow)\<lparr>latency := Num 2000\<rparr>))
       (calculateScore initialState ((getRowData emptyRow)\<lparr>latency := Num 99999\<rparr>))"
proof -
  have w: "normalizedWeights (weights initialState)"
    by (simp add: initialState_def DEFAULTS_def normalizedWeights_def)
  have d0: "normalizedRecord (getRowData emptyRow)"
    by (simp add: normalizedRecord_def getRowData_def emptyRow_def parse_defs)
  have e1: "isCount (Num 1) \<and> isCount (Num 10) \<and> jle (Num 1) (Num 10)" by simp
  have e2: "isCount (Num 2) \<and> isCount (Num 9) \<and> jle (Num 2) (Num 9)" by simp
  have e3: "isCount (Num 0) \<and> isCount (Num 4) \<and> jle (Num 0) (Num 4)" by simp
  have e4: "isCount (Num 800) \<and> isCount (Num 99999) \<and> latencyOrdered (Num 800) (Num 99999)"
    by (simp add: latencyOrdered_def)
  have e5: "jge (Num 99999) (Num 99999)" by simp
  have e6: "isCount (Num 2000) \<and> jgt (Num 2000) (Num 1000) \<and> jlt (Num 2000) (Num 99999)"
    by simp
  have e7: "jgt (w_latency (weights initialState)) (Num 0)"
    by (simp add: initialState_def DEFAULTS_def)
  note T = score_monotone[OF w d0]
  note R = T[THEN conjunct2, THEN conjunct2, THEN conjunct2, THEN conjunct2]
  show ?thesis
    by (intro conjI
        T[THEN conjunct1, rule_format, OF e1]
        T[THEN conjunct2, THEN conjunct1, rule_format, OF e2]
        T[THEN conjunct2, THEN conjunct2, THEN conjunct1, rule_format, OF e3]
        T[THEN conjunct2, THEN conjunct2, THEN conjunct2, THEN conjunct1, rule_format, OF e4]
        R[THEN conjunct1, rule_format, OF e5]
        R[THEN conjunct2, rule_format, OF e6, THEN conjunct2, rule_format, OF e7])
qed

text \<open>
  C4 as stated fails on the sentinel: with the default weights a row with latency 2000
  scores -10000, the same row with the unknown latency 99999 scores -5000.
\<close>

theorem score_latency_counterexample:
  "jle (Num 2000) (Num 99999) \<and>
   jlt (calculateScore initialState (getRowData (emptyRow\<lparr>data_latency := Some ''2000''\<rparr>)))
       (calculateScore initialState (getRowData (emptyRow\<lparr>data_latency := Some ''99999''\<rparr>))) \<and>
   calculateScore initialState (getRowData (emptyRow\<lparr>data_latency := Some ''2000''\<rparr>)) = Num (- 10000) \<and>
   calculateScore initialState (getRowData (emptyRow\<lparr>data_latency := Some ''99999''\<rparr>)) = Num (- 5000)"
  by (simp add: calculateScore_def initialState_def DEFAULTS_def getRowData_def emptyRow_def
      parse_defs Let_def)

lemma digit_not_sign: "isDigit c \<Longrightarrow> c \<noteq> CHR ''-'' \<and> c \<noteq> CHR ''+''"
  by (auto simp: isDigit_def)

lemma parseInt_numeral:
  assumes "startsWithNumeral s"
  shows "\<exists>n. parseInt s = Num (if startsWithMinus s then - real n else real n)"
proof (cases "dropWhile isWhiteSpace s")
  case Nil
  show ?thesis using assms unfolding startsWithNumeral_def Nil by simp
next
  case (Cons c r)
  show ?thesis
  proof (cases "c = CHR ''-'' \<or> c = CHR ''+''")
    case True
    then obtain c' r' where r: "r = c' # r'" "isDigit c'"
      using assms Cons by (cases r) (auto simp: startsWithNumeral_def)
    then have ne: "takeWhile isDigit r \<noteq> []" by simp
    show ?thesis
      using True ne Cons
      by (auto simp: parseInt_def takeSign_def startsWithMinus_def)
  next
    case False
    then have d: "isDigit c" using assms Cons by (simp add: startsWithNumeral_def)
    then have ne: "takeWhile isDigit (c # r) \<noteq> []" by simp
    show ?thesis
      using False ne Cons
      by (auto simp: parseInt_def takeSign_def startsWithMinus_def)
  qed
qed

lemma parseInt_isInteger: "startsWithNumeral s \<Longrightarrow> isInteger (parseInt s)"
  using parseInt_numeral[of s] by auto

lemma parseInt_isCount: "startsWithNumeral s \<Longrightarrow> \<not> startsWithMinus s \<Longrightarrow> isCount (parseInt s)"
  using parseInt_numeral[of s] by auto

lemma numeralAttr_field:
  assumes "numeralAttr a" "startsWithNumeral dflt"
  shows "isInteger (parseInt (orDefault a dflt))"
  using assms
  by (auto simp: numeralAttr_def orDefault_def parseInt_isInteger split: option.splits)

lemma countAttr_field:
  assumes "countAttr a" "startsWithNumeral dflt" "\<not> startsWithMinus dflt"
  shows "isCount (parseInt (orDefault a dflt))"
  using assms
  by (auto simp: countAttr_def orDefault_def parseInt_isCount split: option.splits)

lemma default_numerals:
  "startsWithNumeral ''0''" "\<not> startsWithMinus ''0''"
  "startsWithNumeral ''99999''" "\<not> startsWithMinus ''99999''"
  by (simp_all add: startsWithNumeral_def startsWithMinus_def isWhiteSpace_def isDigit_def)

lemma getRowData_integer:
  assumes "numeralAttributes r"
  shows "integerRecord (getRowData r)"
  using assms unfolding numeralAttributes_def integerRecord_def getRowData_def
  by (simp add: numeralAttr_field default_numerals)

lemma getRowData_count:
  assumes "countAttributes r"
  shows "normalizedRecord (getRowData r)"
  using assms unfolding countAttributes_def normalizedRecord_def getRowData_def
  by (simp add: countAttr_field default_numerals)

lemma unset_default: "unset a \<Longrightarrow> orDefault a d = d"
  by (auto simp: unset_def orDefault_def)

lemma parseInt_0: "parseInt ''0'' = Num 0"
  by (simp add: parse_defs)

lemma parseInt_99999: "parseInt ''99999'' = Num 99999"
  by (simp add: parse_defs)

lemma parseFloat_0: "parseFloat ''0'' = Finite (Num 0)"
  by (simp add: parse_defs)

lemma unknown_latency_scored_as_1000:
  assumes "latency d = Num 99999"
  shows "calculateScore st d = calculateScore st (d\<lparr>latency := Num 1000\<rparr>)"
  using assms by (simp add: calculateScore_def Let_def)

text \<open>
  C5, as amended. An attribute that is absent or empty gives its field the default: 0,
  and 99999 for the latency. A row whose latency is unset is charged the fixed penalty
  of 1000 times the latency weight, scoring exactly as a latency of 1000 would. No
  \<open>NaN\<close> reaches \<open>calculateScore\<close> from a row whose numeric attributes are each absent,
  empty, or at most 308 characters that start, after white space and an optional sign,
  with a decimal digit: every field it reads is then an integer, and the record is of the
  declared domain when no attribute has a minus sign.
\<close>

theorem getRowData_defaults:
  "(unset (data_up r) \<longrightarrow> isUp (getRowData r) = Num 0) \<and>
   (unset (data_uptime r) \<longrightarrow> uptime (getRowData r) = Finite (Num 0)) \<and>
   (unset (data_capacity r) \<longrightarrow> capacity (getRowData r) = Num 0) \<and>
   (unset (data_channels r) \<longrightarrow> channels (getRowData r) = Num 0) \<and>
   (unset (data_currencies r) \<longrightarrow> currencies (getRowData r) = Num 0) \<and>
   (unset (data_mints r) \<longrightarrow> mints (getRowData r) = Num 0) \<and>
   (unset (data_melts r) \<longrightarrow> melts (getRowData r) = Num 0) \<and>
   (unset (data_errors r) \<longrightarrow> errors (getRowData r) = Num 0) \<and>
   (unset (data_latency r) \<longrightarrow>
      latency (getRowData r) = Num 99999 \<and>
      latencyPenalty (weights st) (getRowData r) = jmul (Num 1000) (w_latency (weights st)) \<and>
      calculateScore st (getRowData r) = calculateScore st ((getRowData r)\<lparr>latency := Num 1000\<rparr>)) \<and>
   (numeralAttributes r \<longrightarrow> integerRecord (getRowData r)) \<and>
   (countAttributes r \<longrightarrow> normalizedRecord (getRowData r))"
proof -
  have "unset (data_latency r) \<Longrightarrow> latency (getRowData r) = Num 99999"
    by (simp add: getRowData_def unset_default parseInt_99999)
  moreover have "latency (getRowData r) = Num 99999 \<Longrightarrow>
      latencyPenalty (weights st) (getRowData r) = jmul (Num 1000) (w_latency (weights st))"
    by (simp add: latencyPenalty_def)
  moreover have "unset (data_up r) \<longrightarrow> isUp (getRowData r) = Num 0"
    "unset (data_uptime r) \<longrightarrow> uptime (getRowData r) = Finite (Num 0)"
    "unset (data_capacity r) \<longrightarrow> capacity (getRowData r) = Num 0"
    "unset (data_channels r) \<longrightarrow> channels (getRowData r) = Num 0"
    "unset (data_currencies r) \<longrightarrow> currencies (getRowData r) = Num 0"
    "unset (data_mints r) \<longrightarrow> mints (getRowData r) = Num 0"
    "unset (data_melts r) \<longrightarrow> melts (getRowData r) = Num 0"
    "unset (data_errors r) \<longrightarrow> errors (getRowData r) = Num 0"
    by (simp_all add: getRowData_def unset_default parseInt_0 parseFloat_0)
  ultimately show ?thesis
    using unknown_latency_scored_as_1000[of "getRowData r" st] getRowData_integer[of r]
      getRowData_count[of r]
    by blast
qed

theorem getRowData_defaults_witness:
  "isUp (getRowData (emptyRow\<lparr>data_up := Some '''', data_mints := Some '' 42px'',
      data_melts := Some ''+7'', data_errors := Some ''-3''\<rparr>)) = Num 0 \<and>
   uptime (getRowData (emptyRow\<lparr>data_up := Some '''', data_mints := Some '' 42px'',
      data_melts := Some ''+7'', data_errors := Some ''-3''\<rparr>)) = Finite (Num 0) \<and>
   latency (getRowData (emptyRow\<lparr>data_up := Some '''', data_mints := Some '' 42px'',
      data_melts := Some ''+7'', data_errors := Some ''-3''\<rparr>)) = Num 99999 \<and>
   latencyPenalty DEFAULTS (getRowData (emptyRow\<lparr>data_up := Some '''',
      data_mints := Some '' 42px'', data_melts := Some ''+7'', data_errors := Some ''-3''\<rparr>)) =
     Num 5000 \<and>
   integerRecord (getRowData (emptyRow\<lparr>data_up := Some '''', data_mints := Some '' 42px'',
      data_melts := Some ''+7'', data_errors := Some ''-3''\<rparr>)) \<and>
   normalizedRecord (getRowData (emptyRow\<lparr>data_up := Some '''', data_mints := Some '' 42px'',
      data_melts := Some ''+7''\<rparr>))"
proof -
  let ?r = "emptyRow\<lparr>data_up := Some '''', data_mints := Some '' 42px'',
      data_melts := Some ''+7'', data_errors := Some ''-3''\<rparr>"
  let ?q = "emptyRow\<lparr>data_up := Some '''', data_mints := Some '' 42px'',
      data_melts := Some ''+7''\<rparr>"
  have u: "unset (data_up ?r)" "unset (data_uptime ?r)" "unset (data_latency ?r)"
    by (simp_all add: unset_def emptyRow_def)
  have n: "numeralAttributes ?r"
    by (simp add: numeralAttributes_def numeralAttr_def startsWithNumeral_def emptyRow_def
        isWhiteSpace_def isDigit_def)
  have c: "countAttributes ?q"
    by (simp add: countAttributes_def countAttr_def startsWithNumeral_def startsWithMinus_def
        emptyRow_def isWhiteSpace_def isDigit_def)
  note T = getRowData_defaults[of ?r initialState]
  note L = T[THEN conjunct2, THEN conjunct2, THEN conjunct2, THEN conjunct2, THEN conjunct2,
      THEN conjunct2, THEN conjunct2, THEN conjunct2]
  have p: "latencyPenalty DEFAULTS (getRowData ?r) = Num 5000"
    using L[THEN conjunct1, rule_format, OF u(3), THEN conjunct2, THEN conjunct1]
    by (simp add: initialState_def DEFAULTS_def)
  show ?thesis
    by (intro conjI
        T[THEN conjunct1, rule_format, OF u(1)]
        T[THEN conjunct2, THEN conjunct1, rule_format, OF u(2)]
        L[THEN conjunct1, rule_format, OF u(3), THEN conjunct1]
        p
        L[THEN conjunct2, THEN conjunct1, rule_format, OF n]
        getRowData_defaults[of ?q initialState, THEN conjunct2, THEN conjunct2, THEN conjunct2,
          THEN conjunct2, THEN conjunct2, THEN conjunct2, THEN conjunct2, THEN conjunct2,
          THEN conjunct2, THEN conjunct2, rule_format, OF c])
qed

text \<open>
  C5 as stated fails on an unparsable attribute: a currency count of \<open>n/a\<close> becomes
  \<open>NaN\<close>, not 0, and the score of the row is \<open>NaN\<close>.
\<close>

theorem unparsable_counterexample:
  "currencies (getRowData (emptyRow\<lparr>data_currencies := Some ''n/a''\<rparr>)) = NaN \<and>
   calculateScore initialState (getRowData (emptyRow\<lparr>data_currencies := Some ''n/a''\<rparr>)) = NaN"
  by (simp add: calculateScore_def initialState_def DEFAULTS_def getRowData_def emptyRow_def
      parse_defs Let_def)

text \<open>
  C9, as amended. From any state the reset sets the mode to weighted and the weights to
  the defaults; it leaves the direction (and the column key) as they were. The stored
  direction does not matter afterwards: the comparison in the state after a reset is the
  same for either direction (weighted mode always sorts by descending score).
\<close>

theorem reset_state:
  "mode (onReset st) = Weighted \<and> weights (onReset st) = DEFAULTS \<and>
   direction (onReset st) = direction st \<and> columnKey (onReset st) = columnKey st \<and>
   (\<forall>dir a b. sortCompare ((onReset st)\<lparr>direction := dir\<rparr>) a b = sortCompare (onReset st) a b)"
  by (simp add: onReset_def sortCompare_def primaryCompare_def calculateScore_def)

text \<open>
  C9 as stated fails after a click on the latency header: the state is column mode with
  direction asc, and after the reset the direction is still asc.
\<close>

theorem reset_direction_counterexample:
  "mode (stateAfter [HeaderClick (Some ''latency'')]) = Column \<and>
   direction (stateAfter [HeaderClick (Some ''latency'')]) = Asc \<and>
   mode (stateAfter [HeaderClick (Some ''latency''), Reset]) = Weighted \<and>
   direction (stateAfter [HeaderClick (Some ''latency''), Reset]) = Asc"
  by (simp add: stateAfter_def initialState_def handleHeaderClick_def onReset_def)

section \<open>The sort comparison\<close>





































section \<open>The probes\<close>

lemma inv_initial: "monitorInv initialMonitor"
  by (simp add: monitorInv_def invTasks_def invPending_def invStale_def invCache_def
      invSettled_def initialMonitor_def isFresh_def)

lemma isFresh_tick: "\<not> isFresh c t \<Longrightarrow> \<not> isFresh c (t + int d)"
  by (auto simp: isFresh_def split: option.splits)

lemma isFresh_None [simp]: "\<not> isFresh None t"
  by (simp add: isFresh_def)

lemma inv_tick:
  assumes "monitorInv s"
  shows "monitorInv (s\<lparr>now := now s + int d\<rparr>)"
proof -
  have "invTasks (s\<lparr>now := now s + int d\<rparr>)" using assms by (simp add: monitorInv_def invTasks_def)
  moreover have "invPending (s\<lparr>now := now s + int d\<rparr>)"
    using assms by (simp add: monitorInv_def invPending_def)
  moreover have "invStale (s\<lparr>now := now s + int d\<rparr>)"
    using assms by (simp add: monitorInv_def invStale_def isFresh_tick)
  moreover have "invCache (s\<lparr>now := now s + int d\<rparr>)"
    using assms by (simp add: monitorInv_def invCache_def)
  moreover have "invSettled (s\<lparr>now := now s + int d\<rparr>)"
    using assms by (simp add: monitorInv_def invSettled_def)
  ultimately show ?thesis by (simp add: monitorInv_def)
qed

lemma inv_clear:
  assumes "monitorInv s"
  shows "monitorInv (clearCaches s)"
proof -
  have "invTasks (clearCaches s)" using assms by (simp add: monitorInv_def invTasks_def clearCaches_def)
  moreover have "invPending (clearCaches s)"
    using assms by (simp add: monitorInv_def invPending_def clearCaches_def)
  moreover have "invStale (clearCaches s)"
    by (simp add: invStale_def clearCaches_def)
  moreover have "invCache (clearCaches s)"
    by (simp add: invCache_def clearCaches_def)
  moreover have "invSettled (clearCaches s)"
    using assms by (simp add: monitorInv_def invSettled_def clearCaches_def)
  ultimately show ?thesis by (simp add: monitorInv_def)
qed

text \<open>Starting a latency probe for a URL with no registered promise.\<close>

lemma measureLatencyUncached_start:
  assumes "pendingRequests s u = None"
  shows "measureLatencyUncached u s =
     (Pending (nextPromise s),
      s\<lparr> nextPromise := nextPromise s + 1,
         inflight := inflight s @ [\<lparr> taskPromise = nextPromise s, taskKind = LatencyProbe,
            taskUrl = u, taskRequest = stripTrailingSlash u @ ''/v1/info'' \<rparr>],
         fetches := fetches s @ [stripTrailingSlash u @ ''/v1/info''],
         pendingRequests := (pendingRequests s)(u \<mapsto> nextPromise s) \<rparr>)"
  using assms by (simp add: measureLatencyUncached_def Let_def)

lemma measureLatencyUncached_pending:
  assumes "pendingRequests s u = Some p"
  shows "measureLatencyUncached u s = (Pending p, s)"
  using assms by (simp add: measureLatencyUncached_def)

lemma fetchSupportedUnitsUncached_start:
  assumes "pendingCurrencyRequests s u = None"
  shows "fetchSupportedUnitsUncached u s =
     (Pending (nextPromise s),
      s\<lparr> nextPromise := nextPromise s + 1,
         inflight := inflight s @ [\<lparr> taskPromise = nextPromise s, taskKind = CapabilityProbe,
            taskUrl = u, taskRequest = stripTrailingSlash u @ ''/v1/keysets'' \<rparr>],
         fetches := fetches s @ [stripTrailingSlash u @ ''/v1/keysets''],
         pendingCurrencyRequests := (pendingCurrencyRequests s)(u \<mapsto> nextPromise s) \<rparr>)"
  using assms by (simp add: fetchSupportedUnitsUncached_def Let_def)

lemma fetchSupportedUnitsUncached_pending:
  assumes "pendingCurrencyRequests s u = Some p"
  shows "fetchSupportedUnitsUncached u s = (Pending p, s)"
  using assms by (simp add: fetchSupportedUnitsUncached_def)

lemma inv_start_latency:
  assumes inv: "monitorInv s" and np: "pendingRequests s u = None"
    and stale: "\<not> isFresh (latencyCache s u) (now s)"
  shows "monitorInv (snd (measureLatencyUncached u s))"
proof -
  let ?s = "snd (measureLatencyUncached u s)"
  note eq = measureLatencyUncached_start[OF np]
  from inv have T: "invTasks s" and P: "invPending s" and S: "invStale s" and C: "invCache s"
    and D: "invSettled s" by (simp_all add: monitorInv_def)
  have "invTasks ?s"
    using T np unfolding invTasks_def eq by (auto simp: less_Suc_eq)
  moreover have "invPending ?s"
    using P unfolding invPending_def eq by (auto split: if_splits)
  moreover have "invStale ?s"
    using S stale unfolding invStale_def eq by (auto split: if_splits)
  moreover have "invCache ?s"
    using C unfolding invCache_def eq by simp
  moreover have "invSettled ?s"
    using D unfolding invSettled_def eq by (auto simp: less_Suc_eq)
  ultimately show ?thesis by (simp add: monitorInv_def)
qed

lemma inv_start_units:
  assumes inv: "monitorInv s" and np: "pendingCurrencyRequests s u = None"
    and stale: "\<not> isFresh (currencyCache s u) (now s)"
  shows "monitorInv (snd (fetchSupportedUnitsUncached u s))"
proof -
  let ?s = "snd (fetchSupportedUnitsUncached u s)"
  note eq = fetchSupportedUnitsUncached_start[OF np]
  from inv have T: "invTasks s" and P: "invPending s" and S: "invStale s" and C: "invCache s"
    and D: "invSettled s" by (simp_all add: monitorInv_def)
  have "invTasks ?s"
    using T np unfolding invTasks_def eq by (auto simp: less_Suc_eq)
  moreover have "invPending ?s"
    using P unfolding invPending_def eq by (auto split: if_splits)
  moreover have "invStale ?s"
    using S stale unfolding invStale_def eq by (auto split: if_splits)
  moreover have "invCache ?s"
    using C unfolding invCache_def eq by simp
  moreover have "invSettled ?s"
    using D unfolding invSettled_def eq by (auto simp: less_Suc_eq)
  ultimately show ?thesis by (simp add: monitorInv_def)
qed

lemma settleLatency_success:
  assumes "succeeded resp"
  shows "settleLatency t resp elapsed s =
     s\<lparr> latencyCache := (latencyCache s)(taskUrl t \<mapsto>
            \<lparr>cachedValue = Some (mathRound elapsed), timestamp = now s\<rparr>),
        pendingRequests := (pendingRequests s)(taskUrl t := None),
        inflight := filter (\<lambda>t'. taskPromise t' \<noteq> taskPromise t) (inflight s),
        settled := (settled s)(taskPromise t \<mapsto> LatencyResult (Some (mathRound elapsed))) \<rparr>"
  using assms by (cases resp) (simp_all add: settleLatency_def succeeded_def Let_def)

lemma settleLatency_failure:
  assumes "\<not> succeeded resp"
  shows "settleLatency t resp elapsed s =
     s\<lparr> pendingRequests := (pendingRequests s)(taskUrl t := None),
        inflight := filter (\<lambda>t'. taskPromise t' \<noteq> taskPromise t) (inflight s),
        settled := (settled s)(taskPromise t \<mapsto> LatencyResult None) \<rparr>"
  using assms by (cases resp) (simp_all add: settleLatency_def succeeded_def Let_def)

lemma settleUnits_success:
  assumes "parsedBody resp = Some data"
  shows "settleUnits t resp s =
     s\<lparr> currencyCache := (currencyCache s)(taskUrl t \<mapsto>
            \<lparr>cachedValue = Some (unitsOf data), timestamp = now s\<rparr>),
        pendingCurrencyRequests := (pendingCurrencyRequests s)(taskUrl t := None),
        inflight := filter (\<lambda>t'. taskPromise t' \<noteq> taskPromise t) (inflight s),
        settled := (settled s)(taskPromise t \<mapsto> UnitsResult (Some (unitsOf data))) \<rparr>"
  using assms
  by (cases resp) (auto simp: settleUnits_def parsedBody_def Let_def split: if_splits)

lemma settleUnits_failure:
  assumes "parsedBody resp = None"
  shows "settleUnits t resp s =
     s\<lparr> pendingCurrencyRequests := (pendingCurrencyRequests s)(taskUrl t := None),
        inflight := filter (\<lambda>t'. taskPromise t' \<noteq> taskPromise t) (inflight s),
        settled := (settled s)(taskPromise t \<mapsto> UnitsResult None) \<rparr>"
  using assms
  by (cases resp) (auto simp: settleUnits_def parsedBody_def Let_def split: if_splits option.splits)

text \<open>What every settling does to the registry, the tasks and the promises.\<close>

lemma inv_settle_common:
  assumes inv: "monitorInv s" and t: "t \<in> set (inflight s)"
    and k: "taskKind t = LatencyProbe"
    and s': "inflight s' = filter (\<lambda>t'. taskPromise t' \<noteq> taskPromise t) (inflight s)"
      "pendingRequests s' = (pendingRequests s)(taskUrl t := None)"
      "pendingCurrencyRequests s' = pendingCurrencyRequests s"
      "nextPromise s' = nextPromise s"
      "settled s' = (settled s)(taskPromise t \<mapsto> r)"
  shows "invTasks s' \<and> invPending s' \<and> invSettled s'"
proof -
  from inv have T: "invTasks s" and P: "invPending s" and D: "invSettled s"
    by (simp_all add: monitorInv_def)
  have uniq: "taskPromise t' = taskPromise t"
    if "t' \<in> set (inflight s)" "taskKind t' = LatencyProbe" "taskUrl t' = taskUrl t" for t'
    using T t k that unfolding invTasks_def by (metis option.inject)
  have "invTasks s'"
    unfolding invTasks_def s'
    using T uniq by (auto simp: invTasks_def distinct_map_filter)
  moreover have "invPending s'"
    unfolding invPending_def s'
  proof (intro conjI allI impI)
    fix u p assume h: "((pendingRequests s)(taskUrl t := None)) u = Some p"
    then have u: "u \<noteq> taskUrl t" "pendingRequests s u = Some p" by (auto split: if_splits)
    then obtain t' where t': "t' \<in> set (inflight s)" "taskPromise t' = p"
        "taskKind t' = LatencyProbe" "taskUrl t' = u"
      using P unfolding invPending_def by blast
    have "taskPromise t' \<noteq> taskPromise t"
    proof
      assume e: "taskPromise t' = taskPromise t"
      have "t' = t" using T t t'(1) e unfolding invTasks_def
        by (meson distinct_map inj_onD)
      then show False using t'(4) u(1) by simp
    qed
    then show "\<exists>t'\<in>set (filter (\<lambda>t'. taskPromise t' \<noteq> taskPromise t) (inflight s)).
        taskPromise t' = p \<and> taskKind t' = LatencyProbe \<and> taskUrl t' = u"
      using t' by auto
  next
    fix u p assume h: "pendingCurrencyRequests s u = Some p"
    then obtain t' where t': "t' \<in> set (inflight s)" "taskPromise t' = p"
        "taskKind t' = CapabilityProbe" "taskUrl t' = u"
      using P unfolding invPending_def by blast
    have "taskPromise t' \<noteq> taskPromise t"
    proof
      assume e: "taskPromise t' = taskPromise t"
      have "t' = t" using T t t'(1) e unfolding invTasks_def
        by (meson distinct_map inj_onD)
      then show False using t'(3) k by simp
    qed
    then show "\<exists>t'\<in>set (filter (\<lambda>t'. taskPromise t' \<noteq> taskPromise t) (inflight s)).
        taskPromise t' = p \<and> taskKind t' = CapabilityProbe \<and> taskUrl t' = u"
      using t' by auto
  qed
  moreover have "invSettled s'"
    unfolding invSettled_def s'
    using D T t by (auto simp: invSettled_def invTasks_def)
  ultimately show ?thesis by simp
qed

lemma inv_settle_common_units:
  assumes inv: "monitorInv s" and t: "t \<in> set (inflight s)"
    and k: "taskKind t = CapabilityProbe"
    and s': "inflight s' = filter (\<lambda>t'. taskPromise t' \<noteq> taskPromise t) (inflight s)"
      "pendingCurrencyRequests s' = (pendingCurrencyRequests s)(taskUrl t := None)"
      "pendingRequests s' = pendingRequests s"
      "nextPromise s' = nextPromise s"
      "settled s' = (settled s)(taskPromise t \<mapsto> r)"
  shows "invTasks s' \<and> invPending s' \<and> invSettled s'"
proof -
  from inv have T: "invTasks s" and P: "invPending s" and D: "invSettled s"
    by (simp_all add: monitorInv_def)
  have uniq: "taskPromise t' = taskPromise t"
    if "t' \<in> set (inflight s)" "taskKind t' = CapabilityProbe" "taskUrl t' = taskUrl t" for t'
    using T t k that unfolding invTasks_def by (metis option.inject)
  have "invTasks s'"
    unfolding invTasks_def s'
    using T uniq by (auto simp: invTasks_def distinct_map_filter)
  moreover have "invPending s'"
    unfolding invPending_def s'
  proof (intro conjI allI impI)
    fix u p assume h: "((pendingCurrencyRequests s)(taskUrl t := None)) u = Some p"
    then have u: "u \<noteq> taskUrl t" "pendingCurrencyRequests s u = Some p"
      by (auto split: if_splits)
    then obtain t' where t': "t' \<in> set (inflight s)" "taskPromise t' = p"
        "taskKind t' = CapabilityProbe" "taskUrl t' = u"
      using P unfolding invPending_def by blast
    have "taskPromise t' \<noteq> taskPromise t"
    proof
      assume e: "taskPromise t' = taskPromise t"
      have "t' = t" using T t t'(1) e unfolding invTasks_def
        by (meson distinct_map inj_onD)
      then show False using t'(4) u(1) by simp
    qed
    then show "\<exists>t'\<in>set (filter (\<lambda>t'. taskPromise t' \<noteq> taskPromise t) (inflight s)).
        taskPromise t' = p \<and> taskKind t' = CapabilityProbe \<and> taskUrl t' = u"
      using t' by auto
  next
    fix u p assume h: "pendingRequests s u = Some p"
    then obtain t' where t': "t' \<in> set (inflight s)" "taskPromise t' = p"
        "taskKind t' = LatencyProbe" "taskUrl t' = u"
      using P unfolding invPending_def by blast
    have "taskPromise t' \<noteq> taskPromise t"
    proof
      assume e: "taskPromise t' = taskPromise t"
      have "t' = t" using T t t'(1) e unfolding invTasks_def
        by (meson distinct_map inj_onD)
      then show False using t'(3) k by simp
    qed
    then show "\<exists>t'\<in>set (filter (\<lambda>t'. taskPromise t' \<noteq> taskPromise t) (inflight s)).
        taskPromise t' = p \<and> taskKind t' = LatencyProbe \<and> taskUrl t' = u"
      using t' by auto
  qed
  moreover have "invSettled s'"
    unfolding invSettled_def s'
    using D T t by (auto simp: invSettled_def invTasks_def)
  ultimately show ?thesis by simp
qed

lemma inv_settleLatency:
  assumes inv: "monitorInv s" and t: "t \<in> set (inflight s)" and k: "taskKind t = LatencyProbe"
  shows "monitorInv (settleLatency t resp elapsed s)"
proof -
  let ?s = "settleLatency t resp elapsed s"
  from inv have S: "invStale s" and C: "invCache s" by (simp_all add: monitorInv_def)
  show ?thesis
  proof (cases "succeeded resp")
    case True
    note eq = settleLatency_success[OF True, of t elapsed s]
    have "invTasks ?s \<and> invPending ?s \<and> invSettled ?s"
      by (rule inv_settle_common[OF inv t k]) (simp_all add: eq)
    moreover have "invStale ?s"
      using S unfolding invStale_def eq by simp
    moreover have "invCache ?s"
      using C unfolding invCache_def eq by auto
    ultimately show ?thesis by (simp add: monitorInv_def)
  next
    case False
    note eq = settleLatency_failure[OF False, of t elapsed s]
    have "invTasks ?s \<and> invPending ?s \<and> invSettled ?s"
      by (rule inv_settle_common[OF inv t k]) (simp_all add: eq)
    moreover have "invStale ?s"
      using S unfolding invStale_def eq by simp
    moreover have "invCache ?s"
      using C unfolding invCache_def eq by simp
    ultimately show ?thesis by (simp add: monitorInv_def)
  qed
qed

lemma inv_settleUnits:
  assumes inv: "monitorInv s" and t: "t \<in> set (inflight s)" and k: "taskKind t = CapabilityProbe"
  shows "monitorInv (settleUnits t resp s)"
proof -
  let ?s = "settleUnits t resp s"
  from inv have S: "invStale s" and C: "invCache s" by (simp_all add: monitorInv_def)
  show ?thesis
  proof (cases "parsedBody resp")
    case (Some data)
    note eq = settleUnits_success[OF Some, of t s]
    have "invTasks ?s \<and> invPending ?s \<and> invSettled ?s"
      by (rule inv_settle_common_units[OF inv t k]) (simp_all add: eq)
    moreover have "invStale ?s"
      using S unfolding invStale_def eq by simp
    moreover have "invCache ?s"
      using C unfolding invCache_def eq by auto
    ultimately show ?thesis by (simp add: monitorInv_def)
  next
    case None
    note eq = settleUnits_failure[OF None, of t s]
    have "invTasks ?s \<and> invPending ?s \<and> invSettled ?s"
      by (rule inv_settle_common_units[OF inv t k]) (simp_all add: eq)
    moreover have "invStale ?s"
      using S unfolding invStale_def eq by simp
    moreover have "invCache ?s"
      using C unfolding invCache_def eq by simp
    ultimately show ?thesis by (simp add: monitorInv_def)
  qed
qed

lemma inv_respond:
  assumes inv: "monitorInv s"
  shows "monitorInv (respond p resp elapsed s)"
proof (cases "find (\<lambda>t. taskPromise t = p) (inflight s)")
  case None
  then show ?thesis using inv by (simp add: respond_def)
next
  case (Some t)
  then have t: "t \<in> set (inflight s)" by (auto simp: find_Some_iff)
  show ?thesis
  proof (cases "taskKind t")
    case LatencyProbe
    then show ?thesis using inv_settleLatency[OF inv t LatencyProbe] Some
      by (simp add: respond_def)
  next
    case CapabilityProbe
    then show ?thesis using inv_settleUnits[OF inv t CapabilityProbe] Some
      by (simp add: respond_def)
  qed
qed

lemma inv_measureLatency:
  assumes inv: "monitorInv s"
  shows "monitorInv (snd (measureLatency u s))"
proof (cases "isFresh (latencyCache s u) (now s)")
  case True
  then show ?thesis using inv
    by (auto simp: measureLatency_def isFresh_def split: option.splits)
next
  case False
  then have eq: "measureLatency u s = measureLatencyUncached u s"
    by (auto simp: measureLatency_def isFresh_def split: option.splits)
  show ?thesis
  proof (cases "pendingRequests s u")
    case None
    then show ?thesis using inv_start_latency[OF inv None False] eq by simp
  next
    case (Some p)
    then show ?thesis using inv eq by (simp add: measureLatencyUncached_pending)
  qed
qed

lemma inv_fetchSupportedUnits:
  assumes inv: "monitorInv s"
  shows "monitorInv (snd (fetchSupportedUnits u s))"
proof (cases "isFresh (currencyCache s u) (now s)")
  case True
  then show ?thesis using inv
    by (auto simp: fetchSupportedUnits_def isFresh_def split: option.splits)
next
  case False
  then have eq: "fetchSupportedUnits u s = fetchSupportedUnitsUncached u s"
    by (auto simp: fetchSupportedUnits_def isFresh_def split: option.splits)
  show ?thesis
  proof (cases "pendingCurrencyRequests s u")
    case None
    then show ?thesis using inv_start_units[OF inv None False] eq by simp
  next
    case (Some p)
    then show ?thesis using inv eq by (simp add: fetchSupportedUnitsUncached_pending)
  qed
qed

lemma inv_step: "monitorInv s \<Longrightarrow> monitorInv (step s e)"
  by (cases e)
     (simp_all add: inv_measureLatency inv_fetchSupportedUnits inv_respond inv_tick inv_clear)

lemma inv_foldl: "monitorInv s \<Longrightarrow> monitorInv (foldl step s es)"
  by (induction es arbitrary: s) (simp_all add: inv_step)

lemma inv_run: "monitorInv (run es)"
  unfolding run_def by (rule inv_foldl[OF inv_initial])

lemma find_by_key:
  "distinct (map f xs) \<Longrightarrow> x \<in> set xs \<Longrightarrow> find (\<lambda>y. f y = f x) xs = Some x"
  by (induction xs) (auto simp: image_iff)

lemma find_task:
  assumes "monitorInv s" "t \<in> set (inflight s)"
  shows "find (\<lambda>t'. taskPromise t' = taskPromise t) (inflight s) = Some t"
  using assms by (intro find_by_key) (simp_all add: monitorInv_def invTasks_def)

lemma respond_latency:
  assumes "monitorInv s" "t \<in> set (inflight s)" "taskKind t = LatencyProbe"
  shows "respond (taskPromise t) resp elapsed s = settleLatency t resp elapsed s"
  using find_task[OF assms(1,2)] assms(3) by (simp add: respond_def)

lemma respond_units:
  assumes "monitorInv s" "t \<in> set (inflight s)" "taskKind t = CapabilityProbe"
  shows "respond (taskPromise t) resp elapsed s = settleUnits t resp s"
  using find_task[OF assms(1,2)] assms(3) by (simp add: respond_def)

lemma length_le_1_same_key:
  assumes "distinct (map f xs)" "\<And>x y. x \<in> set xs \<Longrightarrow> y \<in> set xs \<Longrightarrow> f x = f y"
  shows "length xs \<le> 1"
proof (cases xs)
  case Nil
  then show ?thesis by simp
next
  case (Cons x ys)
  show ?thesis
  proof (cases ys)
    case Nil
    then show ?thesis using Cons by simp
  next
    case (Cons y zs)
    then have "f x = f y" using assms(2)[of x y] \<open>xs = x # ys\<close> by simp
    then show ?thesis using assms(1) Cons \<open>xs = x # ys\<close> by simp
  qed
qed

lemma outstanding_at_most_one:
  assumes "monitorInv s"
  shows "length (outstanding k u s) \<le> 1"
proof (rule length_le_1_same_key[where f = taskPromise])
  from assms have T: "invTasks s" by (simp add: monitorInv_def)
  show "distinct (map taskPromise (outstanding k u s))"
    using T by (simp add: outstanding_def invTasks_def distinct_map_filter)
  show "taskPromise x = taskPromise y"
    if "x \<in> set (outstanding k u s)" "y \<in> set (outstanding k u s)" for x y
  proof -
    from that have x: "x \<in> set (inflight s)" "taskKind x = k" "taskUrl x = u"
      and y: "y \<in> set (inflight s)" "taskKind y = k" "taskUrl y = u"
      by (simp_all add: outstanding_def)
    show ?thesis
      using T x y unfolding invTasks_def by (cases k) (metis option.inject)+
  qed
qed

lemma inflight_measureLatency:
  assumes inv: "monitorInv s" and t: "t \<in> set (inflight s)" and k: "taskKind t = LatencyProbe"
  shows "measureLatency (taskUrl t) s = (Pending (taskPromise t), s)"
proof -
  from inv t k have p: "pendingRequests s (taskUrl t) = Some (taskPromise t)"
    by (simp add: monitorInv_def invTasks_def)
  with inv have "\<not> isFresh (latencyCache s (taskUrl t)) (now s)"
    by (simp add: monitorInv_def invStale_def)
  then have "measureLatency (taskUrl t) s = measureLatencyUncached (taskUrl t) s"
    by (auto simp: measureLatency_def isFresh_def split: option.splits)
  then show ?thesis by (simp add: measureLatencyUncached_pending[OF p])
qed

lemma inflight_fetchSupportedUnits:
  assumes inv: "monitorInv s" and t: "t \<in> set (inflight s)" and k: "taskKind t = CapabilityProbe"
  shows "fetchSupportedUnits (taskUrl t) s = (Pending (taskPromise t), s)"
proof -
  from inv t k have p: "pendingCurrencyRequests s (taskUrl t) = Some (taskPromise t)"
    by (simp add: monitorInv_def invTasks_def)
  with inv have "\<not> isFresh (currencyCache s (taskUrl t)) (now s)"
    by (simp add: monitorInv_def invStale_def)
  then have "fetchSupportedUnits (taskUrl t) s = fetchSupportedUnitsUncached (taskUrl t) s"
    by (auto simp: fetchSupportedUnits_def isFresh_def split: option.splits)
  then show ?thesis by (simp add: fetchSupportedUnitsUncached_pending[OF p])
qed

lemma settled_settleLatency:
  "settled (settleLatency t resp elapsed s) =
     (settled s)(taskPromise t \<mapsto>
        LatencyResult (if succeeded resp then Some (mathRound elapsed) else None))"
  by (cases "succeeded resp") (simp_all add: settleLatency_success settleLatency_failure)

lemma settled_settleUnits:
  "settled (settleUnits t resp s) =
     (settled s)(taskPromise t \<mapsto> UnitsResult (map_option unitsOf (parsedBody resp)))"
  by (cases "parsedBody resp") (simp_all add: settleUnits_success settleUnits_failure)

lemma settled_stable:
  assumes inv: "monitorInv s" and r: "settled s p = Some r"
  shows "settled (step s e) p = Some r"
proof (cases e)
  case (CallMeasureLatency u)
  then show ?thesis using r
    by (auto simp: measureLatency_def measureLatencyUncached_def Let_def split: option.splits)
next
  case (CallFetchSupportedUnits u)
  then show ?thesis using r
    by (auto simp: fetchSupportedUnits_def fetchSupportedUnitsUncached_def Let_def
        split: option.splits)
next
  case (Respond q resp elapsed)
  show ?thesis
  proof (cases "find (\<lambda>t. taskPromise t = q) (inflight s)")
    case None
    then show ?thesis using r Respond by (simp add: respond_def)
  next
    case (Some t)
    then have t: "t \<in> set (inflight s)" "taskPromise t = q" by (auto simp: find_Some_iff)
    from inv r have "p \<notin> taskPromise ` set (inflight s)"
      by (simp add: monitorInv_def invSettled_def)
    then have ne: "taskPromise t \<noteq> p" using t(1) by auto
    show ?thesis using Some r Respond ne
      by (cases "taskKind t") (simp_all add: respond_def settled_settleLatency settled_settleUnits)
  qed
next
  case (Tick d)
  then show ?thesis using r by simp
next
  case ClearCaches
  then show ?thesis using r by (simp add: clearCaches_def)
qed

lemma inflight_not_settled:
  assumes inv: "monitorInv s" and t: "t \<in> set (inflight s)"
  shows "settled s (taskPromise t) = None"
  using assms unfolding monitorInv_def invSettled_def by (cases "settled s (taskPromise t)") auto

lemma respond_resolves:
  assumes inv: "monitorInv s" and t: "t \<in> set (inflight s)"
  shows "settled (respond (taskPromise t) resp elapsed s) (taskPromise t) \<noteq> None \<and>
         outstanding (taskKind t) (taskUrl t) (respond (taskPromise t) resp elapsed s) = []"
proof -
  let ?s = "respond (taskPromise t) resp elapsed s"
  have inv': "monitorInv ?s" by (rule inv_respond[OF inv])
  have fl: "inflight ?s = filter (\<lambda>t'. taskPromise t' \<noteq> taskPromise t) (inflight s)"
    and st: "settled ?s (taskPromise t) \<noteq> None"
    using find_task[OF inv t]
    by (cases "taskKind t"; cases "succeeded resp"; cases "parsedBody resp";
        simp add: respond_def settleLatency_success settleLatency_failure
          settleUnits_success settleUnits_failure)+
  have "x \<notin> set (outstanding (taskKind t) (taskUrl t) ?s)" for x
  proof
    assume x: "x \<in> set (outstanding (taskKind t) (taskUrl t) ?s)"
    then have x': "x \<in> set (inflight s)" "taskPromise x \<noteq> taskPromise t"
      "taskKind x = taskKind t" "taskUrl x = taskUrl t"
      by (simp_all add: outstanding_def fl)
    have "x \<in> set (outstanding (taskKind t) (taskUrl t) s)"
      "t \<in> set (outstanding (taskKind t) (taskUrl t) s)"
      using x' t by (simp_all add: outstanding_def)
    moreover have "length (outstanding (taskKind t) (taskUrl t) s) \<le> 1"
      by (rule outstanding_at_most_one[OF inv])
    ultimately have "x = t"
      by (cases "outstanding (taskKind t) (taskUrl t) s") auto
    then show False using x'(2) by simp
  qed
  then have "outstanding (taskKind t) (taskUrl t) ?s = []"
    by (cases "outstanding (taskKind t) (taskUrl t) ?s") auto
  then show ?thesis using st by simp
qed

text \<open>
  C2. In every state the monitor can reach, each probe kind has at most one probe in
  flight per URL. A probe in flight has not settled; a call for its URL returns its very
  promise and leaves the state as it is, so no second network call is issued; the answer
  of the network resolves that promise and ends the probe; and a promise that has
  resolved keeps its value, so both callers see the same outcome.
\<close>

theorem probe_dedup:
  "(\<forall>k u. length (outstanding k u (run es)) \<le> 1) \<and>
   (\<forall>t \<in> set (inflight (run es)).
      settled (run es) (taskPromise t) = None \<and>
      (taskKind t = LatencyProbe \<longrightarrow>
         measureLatency (taskUrl t) (run es) = (Pending (taskPromise t), run es)) \<and>
      (taskKind t = CapabilityProbe \<longrightarrow>
         fetchSupportedUnits (taskUrl t) (run es) = (Pending (taskPromise t), run es)) \<and>
      (\<forall>resp elapsed.
         settled (respond (taskPromise t) resp elapsed (run es)) (taskPromise t) \<noteq> None \<and>
         outstanding (taskKind t) (taskUrl t)
           (respond (taskPromise t) resp elapsed (run es)) = [])) \<and>
   (\<forall>p r e. settled (run es) p = Some r \<longrightarrow> settled (step (run es) e) p = Some r)"
  using outstanding_at_most_one[OF inv_run, of _ _ es]
    inflight_not_settled[OF inv_run, of _ es]
    inflight_measureLatency[OF inv_run, of _ es]
    inflight_fetchSupportedUnits[OF inv_run, of _ es]
    respond_resolves[OF inv_run, of _ es]
    settled_stable[OF inv_run, of es]
  by (intro conjI ballI allI impI) blast+

theorem probe_dedup_witness:
  "length (outstanding LatencyProbe ''https://a''
      (run [CallMeasureLatency ''https://a'', CallMeasureLatency ''https://a''])) \<le> 1 \<and>
   measureLatency ''https://a'' (run [CallMeasureLatency ''https://a'']) =
     (Pending 0, run [CallMeasureLatency ''https://a'']) \<and>
   fetches (run [CallMeasureLatency ''https://a'', CallMeasureLatency ''https://a'']) =
     [''https://a/v1/info'']"
proof -
  let ?t = "\<lparr>taskPromise = 0, taskKind = LatencyProbe, taskUrl = ''https://a'',
            taskRequest = ''https://a/v1/info''\<rparr>"
  have fl: "inflight (run [CallMeasureLatency ''https://a'']) = [?t]"
    by (simp add: run_def measureLatency_def measureLatencyUncached_def initialMonitor_def
        stripTrailingSlash_def Let_def)
  then have mem: "?t \<in> set (inflight (run [CallMeasureLatency ''https://a'']))" by simp
  note T = probe_dedup[of "[CallMeasureLatency ''https://a'']"]
  note B = T[THEN conjunct2, THEN conjunct1, THEN bspec, OF mem]
  have a: "measureLatency ''https://a'' (run [CallMeasureLatency ''https://a'']) =
     (Pending 0, run [CallMeasureLatency ''https://a''])"
    using B by simp
  have r2: "run [CallMeasureLatency ''https://a'', CallMeasureLatency ''https://a''] =
      snd (measureLatency ''https://a'' (run [CallMeasureLatency ''https://a'']))"
    by (simp add: run_def)
  have f1: "fetches (run [CallMeasureLatency ''https://a'']) = [''https://a/v1/info'']"
    by (simp add: run_def measureLatency_def measureLatencyUncached_def initialMonitor_def
        stripTrailingSlash_def Let_def)
  have b: "fetches (run [CallMeasureLatency ''https://a'', CallMeasureLatency ''https://a'']) =
     [''https://a/v1/info'']"
    by (simp add: r2 a f1)
  have c: "length (outstanding LatencyProbe ''https://a''
      (run [CallMeasureLatency ''https://a'', CallMeasureLatency ''https://a''])) \<le> 1"
    using probe_dedup[of "[CallMeasureLatency ''https://a'', CallMeasureLatency ''https://a'']"]
    by blast
  show ?thesis using a b c by (intro conjI)
qed

lemma measureLatency_stale_unregistered:
  assumes "\<not> isFresh (latencyCache s u) (now s)" "pendingRequests s u = None"
  shows "measureLatency u s =
     (Pending (nextPromise s),
      s\<lparr> nextPromise := nextPromise s + 1,
         inflight := inflight s @ [\<lparr> taskPromise = nextPromise s, taskKind = LatencyProbe,
            taskUrl = u, taskRequest = stripTrailingSlash u @ ''/v1/info'' \<rparr>],
         fetches := fetches s @ [stripTrailingSlash u @ ''/v1/info''],
         pendingRequests := (pendingRequests s)(u \<mapsto> nextPromise s) \<rparr>)"
proof -
  have "measureLatency u s = measureLatencyUncached u s"
    using assms(1) by (auto simp: measureLatency_def isFresh_def split: option.splits)
  then show ?thesis by (simp add: measureLatencyUncached_start[OF assms(2)])
qed

lemma latency_failure:
  assumes inv: "monitorInv s" and t: "t \<in> set (inflight s)" and k: "taskKind t = LatencyProbe"
    and f: "\<not> succeeded resp"
  shows "settled (respond (taskPromise t) resp elapsed s) (taskPromise t) =
           Some (LatencyResult None)"
    and "latencyCache (respond (taskPromise t) resp elapsed s) = latencyCache s"
    and "fetches (respond (taskPromise t) resp elapsed s) = fetches s"
    and "\<exists>s''. measureLatency (taskUrl t) (respond (taskPromise t) resp elapsed s) =
           (Pending (nextPromise s), s'') \<and>
           fetches s'' = fetches s @ [stripTrailingSlash (taskUrl t) @ ''/v1/info''] \<and>
           length (outstanding LatencyProbe (taskUrl t) s'') = 1"
proof -
  let ?s = "respond (taskPromise t) resp elapsed s"
  have eq: "?s = s\<lparr> pendingRequests := (pendingRequests s)(taskUrl t := None),
        inflight := filter (\<lambda>t'. taskPromise t' \<noteq> taskPromise t) (inflight s),
        settled := (settled s)(taskPromise t \<mapsto> LatencyResult None) \<rparr>"
    using respond_latency[OF inv t k] settleLatency_failure[OF f] by simp
  show "settled ?s (taskPromise t) = Some (LatencyResult None)"
    and c: "latencyCache ?s = latencyCache s" and "fetches ?s = fetches s"
    by (simp_all add: eq)
  from inv t k have "pendingRequests s (taskUrl t) \<noteq> None"
    by (simp add: monitorInv_def invTasks_def)
  then have st: "\<not> isFresh (latencyCache s (taskUrl t)) (now s)"
    using inv by (simp add: monitorInv_def invStale_def)
  have st': "\<not> isFresh (latencyCache ?s (taskUrl t)) (now ?s)"
    using st by (simp add: eq)
  have np: "pendingRequests ?s (taskUrl t) = None" by (simp add: eq)
  note m = measureLatency_stale_unregistered[OF st' np]
  let ?s'' = "snd (measureLatency (taskUrl t) ?s)"
  have nx: "nextPromise ?s = nextPromise s" by (simp add: eq)
  have o: "outstanding LatencyProbe (taskUrl t) ?s = []"
    using respond_resolves[OF inv t, of resp elapsed] k by simp
  have "outstanding LatencyProbe (taskUrl t) ?s'' =
      outstanding LatencyProbe (taskUrl t) ?s @
        [\<lparr> taskPromise = nextPromise ?s, taskKind = LatencyProbe, taskUrl = taskUrl t,
           taskRequest = stripTrailingSlash (taskUrl t) @ ''/v1/info'' \<rparr>]"
    by (simp add: m outstanding_def)
  then have "length (outstanding LatencyProbe (taskUrl t) ?s'') = 1" by (simp add: o)
  moreover have "fetches ?s'' = fetches s @ [stripTrailingSlash (taskUrl t) @ ''/v1/info'']"
    by (simp add: m) (simp add: eq)
  moreover have "measureLatency (taskUrl t) ?s = (Pending (nextPromise s), ?s'')"
    using m nx by simp
  ultimately show "\<exists>s''. measureLatency (taskUrl t) ?s = (Pending (nextPromise s), s'') \<and>
           fetches s'' = fetches s @ [stripTrailingSlash (taskUrl t) @ ''/v1/info''] \<and>
           length (outstanding LatencyProbe (taskUrl t) s'') = 1"
    by blast
qed

lemma latency_success:
  assumes inv: "monitorInv s" and t: "t \<in> set (inflight s)" and k: "taskKind t = LatencyProbe"
    and f: "succeeded resp"
  shows "settled (respond (taskPromise t) resp elapsed s) (taskPromise t) =
           Some (LatencyResult (Some (mathRound elapsed)))"
    and "latencyCache (respond (taskPromise t) resp elapsed s) (taskUrl t) =
           Some \<lparr>cachedValue = Some (mathRound elapsed), timestamp = now s\<rparr>"
  using respond_latency[OF inv t k] settleLatency_success[OF f] by simp_all

text \<open>
  C7. When the network answers a latency probe in flight: a response with \<open>ok\<close> resolves
  the promise with the rounded time and stores it in the cache; any other answer (a
  network error, the abort of the timeout, a status that is not a success) resolves the
  promise with null, leaves the cache as it was and issues no network call, and the next
  call for the same URL starts a new probe with a new network call.
\<close>

theorem latency_failure_not_cached:
  assumes "t \<in> set (inflight (run es))" and "taskKind t = LatencyProbe"
  shows "(succeeded resp \<longrightarrow>
            settled (respond (taskPromise t) resp elapsed (run es)) (taskPromise t) =
              Some (LatencyResult (Some (mathRound elapsed))) \<and>
            latencyCache (respond (taskPromise t) resp elapsed (run es)) (taskUrl t) =
              Some \<lparr>cachedValue = Some (mathRound elapsed), timestamp = now (run es)\<rparr>) \<and>
         (\<not> succeeded resp \<longrightarrow>
            settled (respond (taskPromise t) resp elapsed (run es)) (taskPromise t) =
              Some (LatencyResult None) \<and>
            latencyCache (respond (taskPromise t) resp elapsed (run es)) =
              latencyCache (run es) \<and>
            fetches (respond (taskPromise t) resp elapsed (run es)) = fetches (run es) \<and>
            (\<exists>s''. measureLatency (taskUrl t) (respond (taskPromise t) resp elapsed (run es)) =
                     (Pending (nextPromise (run es)), s'') \<and>
                   fetches s'' =
                     fetches (run es) @ [stripTrailingSlash (taskUrl t) @ ''/v1/info''] \<and>
                   length (outstanding LatencyProbe (taskUrl t) s'') = 1))"
  using latency_success[OF inv_run assms, of resp elapsed]
    latency_failure[OF inv_run assms, of resp elapsed]
  by (intro conjI impI)

theorem latency_failure_not_cached_witness:
  "settled (respond 0 Aborted 5000 (run [CallMeasureLatency ''https://a''])) 0 =
     Some (LatencyResult None) \<and>
   latencyCache (respond 0 Aborted 5000 (run [CallMeasureLatency ''https://a''])) =
     latencyCache (run [CallMeasureLatency ''https://a'']) \<and>
   fetches (snd (measureLatency ''https://a''
       (respond 0 Aborted 5000 (run [CallMeasureLatency ''https://a''])))) =
     [''https://a/v1/info'', ''https://a/v1/info''] \<and>
   settled (respond 0 (Http True None) (62 / 5) (run [CallMeasureLatency ''https://a''])) 0 =
     Some (LatencyResult (Some 12))"
proof -
  let ?es = "[CallMeasureLatency ''https://a'']"
  let ?t = "\<lparr>taskPromise = 0, taskKind = LatencyProbe, taskUrl = ''https://a'',
            taskRequest = ''https://a/v1/info''\<rparr>"
  have fl: "inflight (run ?es) = [?t]" and fe: "fetches (run ?es) = [''https://a/v1/info'']"
    by (simp_all add: run_def measureLatency_def measureLatencyUncached_def initialMonitor_def
        stripTrailingSlash_def Let_def)
  have mem: "?t \<in> set (inflight (run ?es))" by (simp add: fl)
  have k: "taskKind ?t = LatencyProbe" by simp
  have f: "\<not> succeeded Aborted" and g: "succeeded (Http True None)"
    by (simp_all add: succeeded_def)
  note F = latency_failure_not_cached[OF mem k, of Aborted 5000, THEN conjunct2, rule_format, OF f]
  note G = latency_failure_not_cached[OF mem k, of "Http True None" "62 / 5", THEN conjunct1,
      rule_format, OF g]
  have a: "settled (respond 0 Aborted 5000 (run ?es)) 0 = Some (LatencyResult None)"
    using F by simp
  have b: "latencyCache (respond 0 Aborted 5000 (run ?es)) = latencyCache (run ?es)"
    using F by simp
  from F obtain s'' where
    "measureLatency ''https://a'' (respond 0 Aborted 5000 (run ?es)) =
       (Pending (nextPromise (run ?es)), s'')"
    "fetches s'' = fetches (run ?es) @ [stripTrailingSlash ''https://a'' @ ''/v1/info'']"
    by auto
  then have c: "fetches (snd (measureLatency ''https://a''
       (respond 0 Aborted 5000 (run ?es)))) = [''https://a/v1/info'', ''https://a/v1/info'']"
    by (simp add: fe stripTrailingSlash_def)
  have r: "mathRound (62 / 5) = 12" by (simp add: mathRound_def)
  have d: "settled (respond 0 (Http True None) (62 / 5) (run ?es)) 0 =
     Some (LatencyResult (Some 12))"
    using G by (simp add: r)
  show ?thesis using a b c d by (intro conjI)
qed

lemma cache_hit:
  assumes "latencyCache s u = Some e" "now s - timestamp e < CACHE_DURATION_MS"
  shows "measureLatency u s = (Immediate (cachedValue e), s)"
  using assms by (simp add: measureLatency_def)

lemma latencyCache_settleUnits: "latencyCache (settleUnits t resp s) = latencyCache s"
  by (cases "parsedBody resp") (simp_all add: settleUnits_success settleUnits_failure)

lemma latencyCache_measureLatency: "latencyCache (snd (measureLatency u s)) = latencyCache s"
  by (auto simp: measureLatency_def measureLatencyUncached_def Let_def split: option.splits)

lemma latencyCache_fetchSupportedUnits:
  "latencyCache (snd (fetchSupportedUnits u s)) = latencyCache s"
  by (auto simp: fetchSupportedUnits_def fetchSupportedUnitsUncached_def Let_def
      split: option.splits)

lemma latencyCache_written:
  assumes new: "latencyCache (step s ev) u = Some e" and old: "latencyCache s u \<noteq> Some e"
  shows "\<exists>p b elapsed. ev = Respond p (Http True b) elapsed \<and>
           e = \<lparr>cachedValue = Some (mathRound elapsed), timestamp = now s\<rparr>"
proof (cases ev)
  case (CallMeasureLatency v)
  then show ?thesis using new old by (simp add: latencyCache_measureLatency)
next
  case (CallFetchSupportedUnits v)
  then show ?thesis using new old by (simp add: latencyCache_fetchSupportedUnits)
next
  case (Respond p resp elapsed)
  show ?thesis
  proof (cases "find (\<lambda>t. taskPromise t = p) (inflight s)")
    case None
    then show ?thesis using new old Respond by (simp add: respond_def)
  next
    case (Some t)
    show ?thesis
    proof (cases "taskKind t")
      case CapabilityProbe
      then show ?thesis using new old Respond Some
        by (simp add: respond_def latencyCache_settleUnits)
    next
      case LatencyProbe
      then have eq: "step s ev = settleLatency t resp elapsed s"
        using Respond Some by (simp add: respond_def)
      show ?thesis
      proof (cases "succeeded resp")
        case False
        then show ?thesis using new old eq by (simp add: settleLatency_failure)
      next
        case True
        then obtain b where b: "resp = Http True b"
          by (cases resp) (auto simp: succeeded_def)
        have "e = \<lparr>cachedValue = Some (mathRound elapsed), timestamp = now s\<rparr>"
          using new old eq True by (auto simp: settleLatency_success split: if_splits)
        then show ?thesis using Respond b by blast
      qed
    qed
  qed
next
  case (Tick d)
  then show ?thesis using new old by simp
next
  case ClearCaches
  then show ?thesis using new by (simp add: clearCaches_def)
qed

text \<open>
  C10. In every state the monitor can reach, each entry of the latency cache holds an
  integer, never null; a call for a URL whose entry is younger than the TTL returns that
  integer at once and leaves the state as it is (no network call); and an entry only ever
  appears in the cache by the answer to a probe that is a response with \<open>ok\<close>, holding
  the time measured for it.
\<close>

theorem latency_cache_invariant:
  "(\<forall>u e. latencyCache (run es) u = Some e \<longrightarrow>
      (\<exists>n. cachedValue e = Some n) \<and>
      (now (run es) - timestamp e < CACHE_DURATION_MS \<longrightarrow>
         measureLatency u (run es) = (Immediate (cachedValue e), run es) \<and>
         fst (measureLatency u (run es)) \<noteq> Immediate None)) \<and>
   (\<forall>ev u e. latencyCache (step (run es) ev) u = Some e \<and> latencyCache (run es) u \<noteq> Some e \<longrightarrow>
      (\<exists>p b elapsed. ev = Respond p (Http True b) elapsed \<and>
         e = \<lparr>cachedValue = Some (mathRound elapsed), timestamp = now (run es)\<rparr>))"
proof -
  have c: "\<exists>n. cachedValue e = Some n" if "latencyCache (run es) u = Some e" for u e
    using inv_run[of es] that unfolding monitorInv_def invCache_def by auto
  have h: "measureLatency u (run es) = (Immediate (cachedValue e), run es) \<and>
         fst (measureLatency u (run es)) \<noteq> Immediate None"
    if "latencyCache (run es) u = Some e" "now (run es) - timestamp e < CACHE_DURATION_MS" for u e
    using cache_hit[OF that] c[OF that(1)] by auto
  show ?thesis
    using c h latencyCache_written[of "run es"] by blast
qed

lemmas monitor_eval = run_def measureLatency_def measureLatencyUncached_def
  fetchSupportedUnits_def fetchSupportedUnitsUncached_def initialMonitor_def
  stripTrailingSlash_def respond_def settleLatency_def settleUnits_def mathRound_def
  CACHE_DURATION_MS_def Let_def

theorem latency_cache_invariant_witness:
  "latencyCache
     (run [CallMeasureLatency ''https://a'', Respond 0 (Http True None) 12, Tick 500])
     ''https://a'' = Some \<lparr>cachedValue = Some 12, timestamp = 0\<rparr> \<and>
   measureLatency ''https://a''
     (run [CallMeasureLatency ''https://a'', Respond 0 (Http True None) 12, Tick 500]) =
   (Immediate (Some 12),
    run [CallMeasureLatency ''https://a'', Respond 0 (Http True None) 12, Tick 500])"
proof -
  let ?es = "[CallMeasureLatency ''https://a'', Respond 0 (Http True None) 12, Tick 500]"
  have e: "latencyCache (run ?es) ''https://a'' = Some \<lparr>cachedValue = Some 12, timestamp = 0\<rparr>"
    by (simp add: monitor_eval)
  have n: "now (run ?es) - timestamp \<lparr>cachedValue = Some (12::int), timestamp = 0\<rparr>
      < CACHE_DURATION_MS"
    by (simp add: monitor_eval)
  note T = latency_cache_invariant[of ?es, THEN conjunct1, rule_format, OF e, THEN conjunct2,
      rule_format, OF n, THEN conjunct1]
  show ?thesis using e T by simp
qed

lemma set_setInsertAll: "set (setInsertAll acc xs) = set acc \<union> set xs"
  by (induction xs arbitrary: acc) auto

lemma distinct_setInsertAll: "distinct acc \<Longrightarrow> distinct (setInsertAll acc xs)"
  by (induction xs arbitrary: acc) auto

lemma set_map_filter: "set (List.map_filter f xs) = {y. \<exists>x \<in> set xs. f x = Some y}"
  by (induction xs) (auto simp: List.map_filter_simps split: option.splits)

lemma unitsOf_set:
  "distinct (unitsOf data) \<and>
   set (unitsOf data) = {x. \<exists>ks \<in> set (keysetsOf data). activeUnit ks = Some x}"
  by (simp add: unitsOf_def distinct_setInsertAll set_setInsertAll set_map_filter)

lemma units_success:
  assumes inv: "monitorInv s" and t: "t \<in> set (inflight s)" and k: "taskKind t = CapabilityProbe"
    and b: "parsedBody resp = Some data"
  shows "settled (respond (taskPromise t) resp elapsed s) (taskPromise t) =
           Some (UnitsResult (Some (unitsOf data)))"
    and "currencyCache (respond (taskPromise t) resp elapsed s) (taskUrl t) =
           Some \<lparr>cachedValue = Some (unitsOf data), timestamp = now s\<rparr>"
    and "int d < CACHE_DURATION_MS \<Longrightarrow>
         fetchSupportedUnits (taskUrl t) (step (respond (taskPromise t) resp elapsed s) (Tick d)) =
           (Immediate (Some (unitsOf data)),
            step (respond (taskPromise t) resp elapsed s) (Tick d))"
proof -
  let ?s = "respond (taskPromise t) resp elapsed s"
  note eq = respond_units[OF inv t k, of resp elapsed] settleUnits_success[OF b, of t s]
  show "settled ?s (taskPromise t) = Some (UnitsResult (Some (unitsOf data)))"
    and c: "currencyCache ?s (taskUrl t) =
           Some \<lparr>cachedValue = Some (unitsOf data), timestamp = now s\<rparr>"
    by (simp_all add: eq)
  have n: "now ?s = now s" by (simp add: eq)
  show "fetchSupportedUnits (taskUrl t) (step ?s (Tick d)) =
           (Immediate (Some (unitsOf data)), step ?s (Tick d))"
    if "int d < CACHE_DURATION_MS"
    using that c n by (simp add: fetchSupportedUnits_def)
qed

lemma units_failure:
  assumes inv: "monitorInv s" and t: "t \<in> set (inflight s)" and k: "taskKind t = CapabilityProbe"
    and b: "parsedBody resp = None"
  shows "settled (respond (taskPromise t) resp elapsed s) (taskPromise t) =
           Some (UnitsResult None)"
    and "currencyCache (respond (taskPromise t) resp elapsed s) = currencyCache s"
  using respond_units[OF inv t k, of resp elapsed] settleUnits_failure[OF b, of t s]
  by simp_all

text \<open>
  C8, as amended. When the network answers a capability probe in flight with a response
  that has \<open>ok\<close> and a body that parses as JSON, the promise resolves with the unit
  strings of the entries of the body's \<open>keysets\<close> array that are active, each once (no
  such array counts as an empty one), and the result is stored and served from the cache
  while it is younger than the TTL. Any other answer (a network error, an abort, a
  status that is not a success, a body that is not JSON) resolves the promise with null
  and leaves the cache as it was.
\<close>

theorem units_probe_result:
  assumes "t \<in> set (inflight (run es))" and "taskKind t = CapabilityProbe"
  shows "(\<forall>data. parsedBody resp = Some data \<longrightarrow>
            settled (respond (taskPromise t) resp elapsed (run es)) (taskPromise t) =
              Some (UnitsResult (Some (unitsOf data))) \<and>
            currencyCache (respond (taskPromise t) resp elapsed (run es)) (taskUrl t) =
              Some \<lparr>cachedValue = Some (unitsOf data), timestamp = now (run es)\<rparr> \<and>
            distinct (unitsOf data) \<and>
            set (unitsOf data) = {x. \<exists>ks \<in> set (keysetsOf data). activeUnit ks = Some x} \<and>
            (\<forall>d. int d < CACHE_DURATION_MS \<longrightarrow>
               fetchSupportedUnits (taskUrl t)
                 (step (respond (taskPromise t) resp elapsed (run es)) (Tick d)) =
               (Immediate (Some (unitsOf data)),
                step (respond (taskPromise t) resp elapsed (run es)) (Tick d)))) \<and>
         (parsedBody resp = None \<longrightarrow>
            settled (respond (taskPromise t) resp elapsed (run es)) (taskPromise t) =
              Some (UnitsResult None) \<and>
            currencyCache (respond (taskPromise t) resp elapsed (run es)) =
              currencyCache (run es))"
  using units_success[OF inv_run assms, where resp = resp and elapsed = elapsed]
    units_failure[OF inv_run assms, where resp = resp and elapsed = elapsed] unitsOf_set
  by (intro conjI allI impI) blast+

text \<open>
  C8 as stated fails on a body that parses but has the wrong shape: for the body \<open>{}\<close>
  the probe resolves with the empty list, not with null, and caches it.
\<close>

theorem units_malformed_counterexample:
  "settled (run [CallFetchSupportedUnits ''https://a'',
                 Respond 0 (Http True (Some (JObject []))) 0]) 0 =
     Some (UnitsResult (Some [])) \<and>
   currencyCache (run [CallFetchSupportedUnits ''https://a'',
                       Respond 0 (Http True (Some (JObject []))) 0]) ''https://a'' =
     Some \<lparr>cachedValue = Some [], timestamp = 0\<rparr>"
  by (simp add: monitor_eval unitsOf_def keysetsOf_def)

theorem units_probe_result_witness:
  "settled (respond 0
      (Http True (Some (JObject [(''keysets'', JArray
         [JObject [(''active'', JBool True), (''unit'', JString ''sat'')],
          JObject [(''active'', JBool False), (''unit'', JString ''usd'')],
          JObject [(''active'', JBool True), (''unit'', JString ''sat'')]])]))) 0
      (run [CallFetchSupportedUnits ''https://a''])) 0 =
     Some (UnitsResult (Some [''sat''])) \<and>
   settled (respond 0 (Http True None) 0 (run [CallFetchSupportedUnits ''https://a''])) 0 =
     Some (UnitsResult None)"
proof -
  let ?es = "[CallFetchSupportedUnits ''https://a'']"
  let ?t = "\<lparr>taskPromise = 0, taskKind = CapabilityProbe, taskUrl = ''https://a'',
            taskRequest = ''https://a/v1/keysets''\<rparr>"
  let ?data = "JObject [(''keysets'', JArray
         [JObject [(''active'', JBool True), (''unit'', JString ''sat'')],
          JObject [(''active'', JBool False), (''unit'', JString ''usd'')],
          JObject [(''active'', JBool True), (''unit'', JString ''sat'')]])]"
  have fl: "inflight (run ?es) = [?t]"
    by (simp add: monitor_eval)
  have mem: "?t \<in> set (inflight (run ?es))" by (simp add: fl)
  have k: "taskKind ?t = CapabilityProbe" by simp
  have b: "parsedBody (Http True (Some ?data)) = Some ?data"
    and n: "parsedBody (Http True None) = None"
    by (simp_all add: parsedBody_def)
  have u: "unitsOf ?data = [''sat'']"
    by (simp add: unitsOf_def keysetsOf_def activeUnit_def)
  note S = units_probe_result[OF mem k, of "Http True (Some ?data)" 0, THEN conjunct1,
      rule_format, OF b, THEN conjunct1]
  note F = units_probe_result[OF mem k, of "Http True None" 0, THEN conjunct2,
      rule_format, OF n, THEN conjunct1]
  show ?thesis using S F by (simp add: u)
qed

end
